theory Spec2Isabelle
  imports Main "HOL-Library.Word" "HOL-Library.Sublist" "HOL-Library.Char_ord"
    "HOL-Library.List_Lexorder"
begin

section \<open>Values shared by the archive operations\<close>

text \<open>
  The package \<^verbatim>\<open>tarball\<close> (file \<^verbatim>\<open>tarball.go\<close>) is written on top of Go's
  \<^verbatim>\<open>archive/tar\<close>, \<^verbatim>\<open>compress/gzip\<close>, \<^verbatim>\<open>io\<close>, \<^verbatim>\<open>os\<close>,
  \<^verbatim>\<open>path/filepath\<close>, \<^verbatim>\<open>regexp\<close> and \<^verbatim>\<open>strings\<close>. The functions of the package are
  embedded one by one, with their names, their order of checks and their returns. The
  library calls are embedded by what the package can observe of them: a call keeps its Go
  name with the dot replaced by an underscore.
\<close>

type_synonym byte = "8 word"

subsection \<open>Errors\<close>

text \<open>
  A Go \<^verbatim>\<open>error\<close> value. \<open>EOF\<close> is \<^verbatim>\<open>io.EOF\<close>, compared by identity in the
  source; \<open>Errorf\<close> is what \<^verbatim>\<open>fmt.Errorf\<close> builds, by its message; \<open>Corrupt\<close> is any
  error of the gzip or tar decoder, by its message; the others are the errors of
  \<^verbatim>\<open>tar.Writer\<close>, of \<^verbatim>\<open>os\<close> (operation, path, reason) and of
  \<^verbatim>\<open>filepath\<close>.
\<close>

datatype error =
    EOF
  | Errorf string
  | Corrupt string
  | ErrWriteTooLong
  | ErrWriteAfterClose
  | ErrMissedWriting nat
  | PathError string string string
  | RelError string string
  | ErrBadPattern

fun decimal :: "nat \<Rightarrow> string" where
  "decimal n =
     (if n < 10 then [char_of (48 + n)]
      else decimal (n div 10) @ [char_of (48 + n mod 10)])"

declare decimal.simps [simp del]

text \<open>The method \<^verbatim>\<open>Error()\<close>: the message that \<^verbatim>\<open>%s\<close> prints.\<close>

fun Error_string :: "error \<Rightarrow> string" where
  "Error_string EOF = ''EOF''"
| "Error_string (Errorf msg) = msg"
| "Error_string (Corrupt msg) = msg"
| "Error_string ErrWriteTooLong = ''archive/tar: write too long''"
| "Error_string ErrWriteAfterClose = ''archive/tar: write after close''"
| "Error_string (ErrMissedWriting n) =
     ''archive/tar: missed writing '' @ decimal n @ '' bytes''"
| "Error_string (PathError op p reason) = op @ '' '' @ p @ '': '' @ reason"
| "Error_string (RelError targ base) =
     ''Rel: can't make '' @ targ @ '' relative to '' @ base"
| "Error_string ErrBadPattern = ''syntax error in pattern''"

subsection \<open>Entry headers and decoded streams\<close>

text \<open>
  \<^verbatim>\<open>tar.Header\<close>, with the four fields that \<^verbatim>\<open>addFileToTarWriter\<close> sets. The
  fields are \<^verbatim>\<open>int64\<close> and a time in Go; a size is never negative (it is the length of
  a file or comes out of the tar reader), so it is a natural number here.
\<close>

record Header =
  Name :: string
  Size :: nat
  Mode :: int
  ModTime :: int

text \<open>
  What a \<^verbatim>\<open>tar.Reader\<close> over a \<^verbatim>\<open>gzip.Reader\<close> delivers, call by call:
  \<^item> \<open>Stop err\<close>: \<^verbatim>\<open>Next\<close> returns \<open>err\<close>; \<open>Stop EOF\<close> is the regular end of the
    archive, any other error is a decoding failure;
  \<^item> \<open>Entry h b s\<close>: \<^verbatim>\<open>Next\<close> returns the header \<open>h\<close>, the payload reads as \<open>b\<close> up
    to its end, and \<open>s\<close> follows;
  \<^item> \<open>Torn h b err\<close>: \<^verbatim>\<open>Next\<close> returns the header \<open>h\<close>, the payload reads as \<open>b\<close>
    and then fails with \<open>err\<close> (a truncated or corrupt stream); nothing can be read
    after it.
\<close>

datatype tar_stream =
    Stop error
  | Entry Header "byte list" tar_stream
  | Torn Header "byte list" error

text \<open>The number of headers that a stream still holds.\<close>

fun headers_left :: "tar_stream \<Rightarrow> nat" where
  "headers_left (Stop err) = 0"
| "headers_left (Entry h b s) = Suc (headers_left s)"
| "headers_left (Torn h b err) = 1"

text \<open>
  The part of the standard library that turns bytes into entries and back. Its code is
  not part of this package, so it is a parameter of every function that uses it:
  \<^item> \<open>gzip_NewReader lib data\<close>: \<^verbatim>\<open>gzip.NewReader\<close> on a source holding \<open>data\<close>,
    followed by \<^verbatim>\<open>tar.NewReader\<close>: the error of \<^verbatim>\<open>gzip.NewReader\<close>, or the stream
    that the tar reader will deliver;
  \<^item> \<open>gzip_tar lib entries trailer\<close>: the bytes that reach the sink of a
    \<^verbatim>\<open>gzip.Writer\<close> under a \<^verbatim>\<open>tar.Writer\<close>, once both are closed, when the tar
    writer has received the headers and payload bytes \<open>entries\<close> in this order and has
    (\<open>trailer\<close>) or has not written the end-of-archive marker;
  \<^item> \<open>allowedFormats lib h\<close>: the check of \<^verbatim>\<open>tar.Writer.WriteHeader\<close> that some tar
    format can hold the header \<open>h\<close>: the error it returns, if any.
\<close>

record stdlib =
  gzip_NewReader :: "byte list \<Rightarrow> error + tar_stream"
  gzip_tar :: "(Header \<times> byte list) list \<Rightarrow> bool \<Rightarrow> byte list"
  allowedFormats :: "Header \<Rightarrow> error option"

subsection \<open>The tar reader\<close>

text \<open>
  The state of a \<^verbatim>\<open>tar.Reader\<close>: the unread payload of the current entry, the error
  that ends this payload early (if any), and what follows the current entry.
\<close>

record tar_Reader =
  curr :: "byte list"
  fault :: "error option"
  upcoming :: tar_stream

definition tar_NewReader :: "tar_stream \<Rightarrow> tar_Reader" where
  "tar_NewReader s = \<lparr>curr = [], fault = None, upcoming = s\<rparr>"

text \<open>
  \<^verbatim>\<open>Next\<close> skips what is left of the current payload, which fails when the payload is
  torn, and advances to the next header. Its errors stay: a later call returns them again.
\<close>

definition tar_Next :: "tar_Reader \<Rightarrow> (error + Header) \<times> tar_Reader" where
  "tar_Next r =
     (case fault r of
        Some err \<Rightarrow> (Inl err, r)
      | None \<Rightarrow>
          (case upcoming r of
             Stop err \<Rightarrow> (Inl err, r\<lparr>curr := []\<rparr>)
           | Entry h b s \<Rightarrow> (Inr h, \<lparr>curr = b, fault = None, upcoming = s\<rparr>)
           | Torn h b err \<Rightarrow> (Inr h, \<lparr>curr = b, fault = Some err, upcoming = Stop err\<rparr>)))"

text \<open>
  A byte source as \<^verbatim>\<open>io.Copy\<close> and \<^verbatim>\<open>ioutil.ReadAll\<close> see it: the bytes it yields,
  and the error that follows them (\<open>None\<close> when the source ends with \<^verbatim>\<open>io.EOF\<close>).
\<close>

type_synonym source = "byte list \<times> error option"

definition tar_Reader_source :: "tar_Reader \<Rightarrow> source" where
  "tar_Reader_source r = (curr r, fault r)"

text \<open>
  \<^verbatim>\<open>ioutil.ReadAll\<close> returns the bytes it has read and the error that stopped it; the end
  of the source is no error.
\<close>

definition ioutil_ReadAll :: "source \<Rightarrow> byte list \<times> error option" where
  "ioutil_ReadAll src =
     (fst src, case snd src of None \<Rightarrow> None | Some err \<Rightarrow> if err = EOF then None else Some err)"

subsection \<open>The tar writer\<close>

text \<open>
  The state of a \<^verbatim>\<open>tar.Writer\<close>: the entries before the current one (header and the
  payload bytes received), the current entry, whether \<^verbatim>\<open>Close\<close> has run, and whether the
  end-of-archive marker has been written.
\<close>

record tar_Writer =
  finished :: "(Header \<times> byte list) list"
  current :: "(Header \<times> byte list) option"
  closed :: bool
  trailer :: bool

definition tar_NewWriter :: tar_Writer where
  "tar_NewWriter = \<lparr>finished = [], current = None, closed = False, trailer = False\<rparr>"

definition written :: "tar_Writer \<Rightarrow> (Header \<times> byte list) list" where
  "written tw = finished tw @ (case current tw of None \<Rightarrow> [] | Some e \<Rightarrow> [e])"

text \<open>The bytes that the current entry still lacks.\<close>

definition remaining :: "tar_Writer \<Rightarrow> nat" where
  "remaining tw = (case current tw of None \<Rightarrow> 0 | Some (h, b) \<Rightarrow> Size h - length b)"

text \<open>
  \<^verbatim>\<open>WriteHeader\<close> flushes first: it fails after \<^verbatim>\<open>Close\<close>, and when the current entry
  has received fewer bytes than its header announced. Then the header must fit a format.
\<close>

definition tar_WriteHeader :: "stdlib \<Rightarrow> tar_Writer \<Rightarrow> Header \<Rightarrow> error option \<times> tar_Writer" where
  "tar_WriteHeader lib tw hdr =
     (if closed tw then (Some ErrWriteAfterClose, tw)
      else if 0 < remaining tw then (Some (ErrMissedWriting (remaining tw)), tw)
      else (case allowedFormats lib hdr of
              Some err \<Rightarrow> (Some err, tw)
            | None \<Rightarrow> (None, tw\<lparr>finished := written tw, current := Some (hdr, [])\<rparr>)))"

text \<open>
  \<^verbatim>\<open>Write\<close> appends to the current entry at most the bytes it still lacks, and reports
  \<^verbatim>\<open>ErrWriteTooLong\<close> for the rest.
\<close>

definition tar_Write :: "tar_Writer \<Rightarrow> byte list \<Rightarrow> nat \<times> error option \<times> tar_Writer" where
  "tar_Write tw b =
     (if closed tw then (0, Some ErrWriteAfterClose, tw)
      else
        let n = min (length b) (remaining tw) in
          (n,
           if n < length b then Some ErrWriteTooLong else None,
           tw\<lparr>current := map_option (\<lambda>(h, p). (h, p @ take n b)) (current tw)\<rparr>))"

text \<open>
  \<^verbatim>\<open>Close\<close> flushes, writes the end-of-archive marker when the flush succeeded, and
  leaves the writer closed in either case. A second \<^verbatim>\<open>Close\<close> does nothing.
\<close>

definition tar_Close :: "tar_Writer \<Rightarrow> error option \<times> tar_Writer" where
  "tar_Close tw =
     (if closed tw then (None, tw)
      else if 0 < remaining tw then (Some (ErrMissedWriting (remaining tw)), tw\<lparr>closed := True\<rparr>)
      else (None, tw\<lparr>closed := True, trailer := True\<rparr>))"

text \<open>
  \<^verbatim>\<open>io.Copy\<close> into a tar writer: it writes what it reads, chunk by chunk, stops at the
  first error of the writer, and otherwise returns the error of the source; the end of the
  source is no error. A source that yields nothing causes no call of \<^verbatim>\<open>Write\<close>.
\<close>

definition io_Copy :: "tar_Writer \<Rightarrow> source \<Rightarrow> error option \<times> tar_Writer" where
  "io_Copy tw src =
     (if fst src = [] then (snd (ioutil_ReadAll src), tw)
      else
        (case tar_Write tw (fst src) of
           (n, Some err, tw') \<Rightarrow> (Some err, tw')
         | (n, None, tw') \<Rightarrow> (snd (ioutil_ReadAll src), tw')))"

text \<open>The bytes in the sink of the gzip writer after both writers are closed.\<close>

definition sink_bytes :: "stdlib \<Rightarrow> tar_Writer \<Rightarrow> byte list" where
  "sink_bytes lib tw = gzip_tar lib (written tw) (trailer tw)"

text \<open>\<^verbatim>\<open>strings.TrimPrefix\<close>.\<close>

definition strings_TrimPrefix :: "string \<Rightarrow> string \<Rightarrow> string" where
  "strings_TrimPrefix s p = (if prefix p s then drop (length p) s else s)"

section \<open>The operations on archive bytes\<close>

subsection \<open>CombineTarballs\<close>

text \<open>
  The inner loop of \<^verbatim>\<open>CombineTarballs\<close> (lines 30 to 46): every entry of one reader
  goes to the shared tar writer, header first, then payload. \<^verbatim>\<open>io.EOF\<close> from
  \<^verbatim>\<open>Next\<close> ends the loop without error; every other error is returned.
\<close>

function CombineTarballs_loop ::
  "stdlib \<Rightarrow> tar_Reader \<Rightarrow> tar_Writer \<Rightarrow> error option \<times> tar_Writer" where
  "CombineTarballs_loop lib tarReader tarWriter =
     (case tar_Next tarReader of
        (Inl err, _) \<Rightarrow> (if err = EOF then None else Some err, tarWriter)
      | (Inr header, tarReader') \<Rightarrow>
          (case tar_WriteHeader lib tarWriter header of
             (Some err, tw') \<Rightarrow> (Some err, tw')
           | (None, tw') \<Rightarrow>
               (case io_Copy tw' (tar_Reader_source tarReader') of
                  (Some err, tw'') \<Rightarrow> (Some err, tw'')
                | (None, tw'') \<Rightarrow> CombineTarballs_loop lib tarReader' tw'')))"
  by pat_completeness auto
termination
  by (relation "measure (\<lambda>(lib, r, tw). headers_left (upcoming r))")
    (auto simp: tar_Next_def split: option.splits tar_stream.splits)

declare CombineTarballs_loop.simps [simp del]

text \<open>
  The function literal called once per reader (lines 22 to 47): it opens the gzip reader
  and runs the loop.
\<close>

definition CombineTarballs_func ::
  "stdlib \<Rightarrow> byte list \<Rightarrow> tar_Writer \<Rightarrow> error option \<times> tar_Writer" where
  "CombineTarballs_func lib reader tarWriter =
     (case gzip_NewReader lib reader of
        Inl err \<Rightarrow> (Some err, tarWriter)
      | Inr gzipReader \<Rightarrow> CombineTarballs_loop lib (tar_NewReader gzipReader) tarWriter)"

text \<open>The loop over the readers (lines 21 to 51): the first error ends it.\<close>

fun CombineTarballs_readers ::
  "stdlib \<Rightarrow> byte list list \<Rightarrow> tar_Writer \<Rightarrow> error option \<times> tar_Writer" where
  "CombineTarballs_readers lib [] tarWriter = (None, tarWriter)"
| "CombineTarballs_readers lib (reader # readers) tarWriter =
     (case CombineTarballs_func lib reader tarWriter of
        (Some err, tw') \<Rightarrow> (Some err, tw')
      | (None, tw') \<Rightarrow> CombineTarballs_readers lib readers tw')"

text \<open>
  \<^verbatim>\<open>CombineTarballs\<close>. A reader is given by the bytes it holds. The result is the pair
  that Go returns: the byte slice (\<open>None\<close> for \<^verbatim>\<open>nil\<close>) and the error. The errors of
  the two \<^verbatim>\<open>Close\<close> calls are dropped, as in the source.
\<close>

definition CombineTarballs ::
  "stdlib \<Rightarrow> byte list list \<Rightarrow> byte list option \<times> error option" where
  "CombineTarballs lib readers =
     (case CombineTarballs_readers lib readers tar_NewWriter of
        (Some err, _) \<Rightarrow> (None, Some err)
      | (None, tarWriter) \<Rightarrow>
          (Some (sink_bytes lib (snd (tar_Close tarWriter))), None))"

subsection \<open>ReadFileFromGzippedTarball\<close>

text \<open>
  The loop of \<^verbatim>\<open>ReadFileFromGzippedTarball\<close> (lines 152 to 163). At \<^verbatim>\<open>io.EOF\<close> the
  error is replaced by the message that names the path; at the first header with the
  wanted name, the result is what \<^verbatim>\<open>ioutil.ReadAll\<close> returns.
\<close>

function ReadFileFromGzippedTarball_loop ::
  "tar_Reader \<Rightarrow> string \<Rightarrow> byte list option \<times> error option" where
  "ReadFileFromGzippedTarball_loop tarReader path =
     (case tar_Next tarReader of
        (Inl err, _) \<Rightarrow>
          (None,
           Some (if err = EOF then Errorf (''no file named '' @ path @ '' in tarball'')
                 else err))
      | (Inr header, tarReader') \<Rightarrow>
          if Name header = path then
            (case ioutil_ReadAll (tar_Reader_source tarReader') of
               (b, err) \<Rightarrow> (Some b, err))
          else ReadFileFromGzippedTarball_loop tarReader' path)"
  by pat_completeness auto
termination
  by (relation "measure (\<lambda>(r, path). headers_left (upcoming r))")
    (auto simp: tar_Next_def split: option.splits tar_stream.splits)

declare ReadFileFromGzippedTarball_loop.simps [simp del]

definition ReadFileFromGzippedTarball ::
  "stdlib \<Rightarrow> byte list \<Rightarrow> string \<Rightarrow> byte list option \<times> error option" where
  "ReadFileFromGzippedTarball lib data path =
     (case gzip_NewReader lib data of
        Inl err \<Rightarrow> (None, Some err)
      | Inr gzipReader \<Rightarrow> ReadFileFromGzippedTarball_loop (tar_NewReader gzipReader) path)"

subsection \<open>WriteTarballToTarWriter\<close>

text \<open>
  The loop of \<^verbatim>\<open>WriteTarballToTarWriter\<close> (lines 174 to 194). The tar writer belongs to
  the caller: the function returns its new state with the error, and never closes it.
\<close>

function WriteTarballToTarWriter_loop ::
  "stdlib \<Rightarrow> tar_Reader \<Rightarrow> tar_Writer \<Rightarrow> string \<Rightarrow> error option \<times> tar_Writer" where
  "WriteTarballToTarWriter_loop lib tarReader tarWriter pathPrefixToTrim =
     (case tar_Next tarReader of
        (Inl err, _) \<Rightarrow> (if err = EOF then None else Some err, tarWriter)
      | (Inr header, tarReader') \<Rightarrow>
          (let header' =
                 (if pathPrefixToTrim \<noteq> []
                  then header\<lparr>Name := strings_TrimPrefix (Name header) pathPrefixToTrim\<rparr>
                  else header)
           in case tar_WriteHeader lib tarWriter header' of
                (Some err, tw') \<Rightarrow> (Some err, tw')
              | (None, tw') \<Rightarrow>
                  (case io_Copy tw' (tar_Reader_source tarReader') of
                     (Some err, tw'') \<Rightarrow> (Some err, tw'')
                   | (None, tw'') \<Rightarrow>
                       WriteTarballToTarWriter_loop lib tarReader' tw'' pathPrefixToTrim)))"
  by pat_completeness auto
termination
  by (relation "measure (\<lambda>(lib, r, tw, p). headers_left (upcoming r))")
    (auto simp: tar_Next_def split: option.splits tar_stream.splits)

declare WriteTarballToTarWriter_loop.simps [simp del]

definition WriteTarballToTarWriter ::
  "stdlib \<Rightarrow> byte list \<Rightarrow> tar_Writer \<Rightarrow> string \<Rightarrow> error option \<times> tar_Writer" where
  "WriteTarballToTarWriter lib data tarWriter pathPrefixToTrim =
     (case gzip_NewReader lib data of
        Inl err \<Rightarrow> (Some err, tarWriter)
      | Inr gzipReader \<Rightarrow>
          WriteTarballToTarWriter_loop lib (tar_NewReader gzipReader) tarWriter pathPrefixToTrim)"

section \<open>The file system\<close>

text \<open>
  The file system as the package uses it: paths are cleaned, slash-separated strings
  (no empty, \<^verbatim>\<open>.\<close> or inner \<^verbatim>\<open>..\<close> element, no trailing slash), and every node is
  listed under its path. A regular file has its content, its mode bits and its time of
  modification; a directory has the size, the mode and the time that \<^verbatim>\<open>Stat\<close> reports
  for it. Symbolic links and access rights are left out, but for \<open>undeletable\<close>: the paths
  that \<^verbatim>\<open>os.Remove\<close> refuses to delete. \<open>clock\<close> and \<open>dirsize\<close> are the time and the
  size that the system gives to a node it creates.
\<close>

datatype node =
    File "byte list" int int
  | Dir nat int int

record filesystem =
  nodes :: "(string \<times> node) list"
  undeletable :: "string list"
  clock :: int
  dirsize :: nat

definition lookup :: "filesystem \<Rightarrow> string \<Rightarrow> node option" where
  "lookup fs p = map_of (nodes fs) p"

definition store :: "filesystem \<Rightarrow> string \<Rightarrow> node \<Rightarrow> filesystem" where
  "store fs p n = fs\<lparr>nodes := (p, n) # filter (\<lambda>kv. fst kv \<noteq> p) (nodes fs)\<rparr>"

definition erase :: "filesystem \<Rightarrow> string \<Rightarrow> filesystem" where
  "erase fs p = fs\<lparr>nodes := filter (\<lambda>kv. fst kv \<noteq> p) (nodes fs)\<rparr>"

text \<open>\<^verbatim>\<open>os.FileInfo\<close> is the node itself, read through its four methods.\<close>

fun FileInfo_IsDir :: "node \<Rightarrow> bool" where
  "FileInfo_IsDir (File b m t) = False"
| "FileInfo_IsDir (Dir n m t) = True"

fun FileInfo_Size :: "node \<Rightarrow> nat" where
  "FileInfo_Size (File b m t) = length b"
| "FileInfo_Size (Dir n m t) = n"

fun FileInfo_Mode :: "node \<Rightarrow> int" where
  "FileInfo_Mode (File b m t) = m"
| "FileInfo_Mode (Dir n m t) = m"

fun FileInfo_ModTime :: "node \<Rightarrow> int" where
  "FileInfo_ModTime (File b m t) = t"
| "FileInfo_ModTime (Dir n m t) = t"

definition os_Stat :: "filesystem \<Rightarrow> string \<Rightarrow> error + node" where
  "os_Stat fs p =
     (case lookup fs p of
        None \<Rightarrow> Inl (PathError ''stat'' p ''no such file or directory'')
      | Some n \<Rightarrow> Inr n)"

text \<open>An open file: the path it was opened under and the node it refers to.\<close>

type_synonym os_File = "string \<times> node"

definition os_Open :: "filesystem \<Rightarrow> string \<Rightarrow> error + os_File" where
  "os_Open fs p =
     (case lookup fs p of
        None \<Rightarrow> Inl (PathError ''open'' p ''no such file or directory'')
      | Some n \<Rightarrow> Inr (p, n))"

definition os_File_Stat :: "os_File \<Rightarrow> error + node" where
  "os_File_Stat file = Inr (snd file)"

text \<open>Reading an open file yields its content; reading a directory fails at once.\<close>

fun os_File_source :: "os_File \<Rightarrow> source" where
  "os_File_source (p, File b m t) = (b, None)"
| "os_File_source (p, Dir n m t) = ([], Some (PathError ''read'' p ''is a directory''))"

text \<open>
  The names of the entries of a directory: a name is not empty, has no slash and is
  neither \<^verbatim>\<open>.\<close> nor \<^verbatim>\<open>..\<close>. \<^verbatim>\<open>filepath.Join\<close> of a cleaned directory and a name
  is cleaned again: the working directory \<^verbatim>\<open>.\<close> disappears, the root keeps its slash.
\<close>

definition is_name :: "string \<Rightarrow> bool" where
  "is_name n = (n \<noteq> [] \<and> CHR ''/'' \<notin> set n \<and> n \<noteq> ''.'' \<and> n \<noteq> ''..'')"

definition filepath_Join :: "string \<Rightarrow> string \<Rightarrow> string" where
  "filepath_Join dir n =
     (if dir = ''.'' then n else if dir = ''/'' then ''/'' @ n else dir @ ''/'' @ n)"

definition child_name :: "string \<Rightarrow> string \<Rightarrow> string option" where
  "child_name dir k =
     (let pre = filepath_Join dir [] in
        if prefix pre k \<and> is_name (drop (length pre) k) then Some (drop (length pre) k)
        else None)"

text \<open>\<^verbatim>\<open>Readdirnames\<close> followed by \<^verbatim>\<open>sort.Strings\<close>, as \<^verbatim>\<open>filepath.Glob\<close> does.\<close>

definition Readdirnames :: "filesystem \<Rightarrow> string \<Rightarrow> string list" where
  "Readdirnames fs dir =
     sorted_list_of_set (set (List.map_filter (child_name dir) (map fst (nodes fs))))"

text \<open>
  \<^verbatim>\<open>os.Remove\<close> deletes a file or an empty directory. It fails when there is nothing at
  the path, when the system refuses, and on a directory that has entries.
\<close>

definition os_Remove :: "filesystem \<Rightarrow> string \<Rightarrow> error option \<times> filesystem" where
  "os_Remove fs p =
     (case lookup fs p of
        None \<Rightarrow> (Some (PathError ''remove'' p ''no such file or directory''), fs)
      | Some n \<Rightarrow>
          if p \<in> set (undeletable fs)
          then (Some (PathError ''remove'' p ''operation not permitted''), fs)
          else if FileInfo_IsDir n \<and> Readdirnames fs p \<noteq> []
          then (Some (PathError ''remove'' p ''directory not empty''), fs)
          else (None, erase fs p))"

definition os_Mkdir :: "filesystem \<Rightarrow> string \<Rightarrow> int \<Rightarrow> error option \<times> filesystem" where
  "os_Mkdir fs p perm =
     (case lookup fs p of
        Some n \<Rightarrow> (Some (PathError ''mkdir'' p ''file exists''), fs)
      | None \<Rightarrow> (None, store fs p (Dir (dirsize fs) (2147483648 + perm) (clock fs))))"

text \<open>
  The parent that \<^verbatim>\<open>os.MkdirAll\<close> creates first: the path up to its last slash, unless
  that is the root or the working directory.
\<close>

definition parent_of :: "string \<Rightarrow> string option" where
  "parent_of p =
     (let d = rev (drop 1 (dropWhile (\<lambda>c. c \<noteq> CHR ''/'') (rev p)))
      in if d = [] then None else Some d)"

function os_MkdirAll :: "filesystem \<Rightarrow> string \<Rightarrow> int \<Rightarrow> error option \<times> filesystem" where
  "os_MkdirAll fs p perm =
     (case lookup fs p of
        Some (Dir n m t) \<Rightarrow> (None, fs)
      | Some (File b m t) \<Rightarrow> (Some (PathError ''mkdir'' p ''not a directory''), fs)
      | None \<Rightarrow>
          (case parent_of p of
             None \<Rightarrow> os_Mkdir fs p perm
           | Some parent \<Rightarrow>
               (case os_MkdirAll fs parent perm of
                  (Some err, fs') \<Rightarrow> (Some err, fs')
                | (None, fs') \<Rightarrow> os_Mkdir fs' p perm)))"
  by pat_completeness auto
termination
proof (relation "measure (\<lambda>(fs, p, perm). length p)")
  show "wf (measure (\<lambda>(fs, p, perm). length p))"
    by simp
next
  fix fs :: filesystem and p parent :: string and perm :: int
  assume "parent_of p = Some parent"
  then have "parent = rev (drop 1 (dropWhile (\<lambda>c. c \<noteq> CHR ''/'') (rev p)))" and "parent \<noteq> []"
    by (auto simp: parent_of_def Let_def split: if_splits)
  then have "length parent < length (dropWhile (\<lambda>c. c \<noteq> CHR ''/'') (rev p))"
    by (cases "dropWhile (\<lambda>c. c \<noteq> CHR ''/'') (rev p)") auto
  also have "\<dots> \<le> length (rev p)"
    by (rule length_dropWhile_le)
  finally show "((fs, parent, perm), (fs, p, perm)) \<in> measure (\<lambda>(fs, p, perm). length p)"
    by simp
qed

declare os_MkdirAll.simps [simp del]

text \<open>
  \<^verbatim>\<open>os.Create\<close> truncates the file at the path, or makes a new one with mode 0666; it
  fails on a directory. The directory of the path is there at the only call, which follows
  \<^verbatim>\<open>os.MkdirAll\<close>.
\<close>

definition os_Create :: "filesystem \<Rightarrow> string \<Rightarrow> error + filesystem" where
  "os_Create fs p =
     (case lookup fs p of
        Some (Dir n m t) \<Rightarrow> Inl (PathError ''open'' p ''is a directory'')
      | Some (File b m t) \<Rightarrow> Inr (store fs p (File [] m (clock fs)))
      | None \<Rightarrow> Inr (store fs p (File [] 438 (clock fs))))"

text \<open>
  What the file at a path holds after the writers over it are closed. The file was
  created before, and the content goes to the node that was opened.
\<close>

definition close_file :: "filesystem \<Rightarrow> string \<Rightarrow> byte list \<Rightarrow> filesystem" where
  "close_file fs p b =
     (case lookup fs p of
        Some (File old m t) \<Rightarrow> store fs p (File b m t)
      | _ \<Rightarrow> fs)"

subsection \<open>Paths\<close>

text \<open>
  \<^verbatim>\<open>filepath.Dir\<close> of a cleaned path: all but the last element; \<^verbatim>\<open>.\<close> when there is no
  slash, the root when the only slash is the first character.
\<close>

definition filepath_Dir :: "string \<Rightarrow> string" where
  "filepath_Dir p =
     (let d = rev (dropWhile (\<lambda>c. c \<noteq> CHR ''/'') (rev p))
      in if d = [] then ''.'' else if d = ''/'' then ''/'' else butlast d)"

text \<open>
  The elements that the loop of \<^verbatim>\<open>filepath.Rel\<close> walks through: the stretches between
  slashes, where a leading slash gives an empty first element.
\<close>

function elems :: "string \<Rightarrow> string list" where
  "elems s =
     (if s = [] then []
      else takeWhile (\<lambda>c. c \<noteq> CHR ''/'') s #
        (case dropWhile (\<lambda>c. c \<noteq> CHR ''/'') s of
           [] \<Rightarrow> []
         | sep # rest \<Rightarrow> elems rest))"
  by pat_completeness auto
termination
proof (relation "measure length")
  show "wf (measure length)"
    by simp
next
  fix s rest :: string and sep :: char
  assume "dropWhile (\<lambda>c. c \<noteq> CHR ''/'') s = sep # rest"
  then have "length rest < length (dropWhile (\<lambda>c. c \<noteq> CHR ''/'') s)"
    by simp
  also have "\<dots> \<le> length s"
    by (rule length_dropWhile_le)
  finally show "(rest, s) \<in> measure length"
    by simp
qed

declare elems.simps [simp del]

fun join_elems :: "string list \<Rightarrow> string" where
  "join_elems [] = []"
| "join_elems [e] = e"
| "join_elems (e # es) = e @ ''/'' @ join_elems es"

fun common_prefix :: "'a list \<Rightarrow> 'a list \<Rightarrow> nat" where
  "common_prefix (x # xs) (y # ys) = (if x = y then Suc (common_prefix xs ys) else 0)"
| "common_prefix xs ys = 0"

text \<open>
  \<^verbatim>\<open>filepath.Rel\<close> on cleaned paths. Equal paths give \<^verbatim>\<open>.\<close>; an absolute and a relative
  path have no relative form; otherwise the common leading elements go, every element left
  of the base becomes \<^verbatim>\<open>..\<close>, and a base that differs from the target at a \<^verbatim>\<open>..\<close>
  element is an error.
\<close>

definition filepath_Rel :: "string \<Rightarrow> string \<Rightarrow> error + string" where
  "filepath_Rel basepath targpath =
     (if targpath = basepath then Inr ''.''
      else
        let base = (if basepath = ''.'' then [] else basepath);
            baseSlashed = (base \<noteq> [] \<and> hd base = CHR ''/'');
            targSlashed = (targpath \<noteq> [] \<and> hd targpath = CHR ''/'')
        in if baseSlashed \<noteq> targSlashed then Inl (RelError targpath basepath)
           else
             let n = common_prefix (elems base) (elems targpath);
                 b = drop n (elems base);
                 t = drop n (elems targpath)
             in if b \<noteq> [] \<and> t \<noteq> [] \<and> hd b = ''..'' then Inl (RelError targpath basepath)
                else Inr (join_elems (replicate (length b) ''..'' @ t)))"

text \<open>
  \<^verbatim>\<open>filepath.Match\<close> as it is on Unix since Go 1.16, where the backslash escapes and a
  pattern that is not well formed is reported also after the match has failed. One
  character stands for one rune: names and patterns are ASCII. \<^verbatim>\<open>scanChunk\<close> takes the stars at the front
  of the pattern and cuts the rest at the next star that is outside a character class;
  \<open>scan\<close> is its loop, with the position of the cut as its result.
\<close>

fun scan :: "bool \<Rightarrow> string \<Rightarrow> nat" where
  "scan inrange [] = 0"
| "scan inrange (c # p) =
     (if c = CHR 0x5C then (case p of [] \<Rightarrow> 1 | d # p' \<Rightarrow> 2 + scan inrange p')
      else if c = CHR ''['' then 1 + scan True p
      else if c = CHR '']'' then 1 + scan False p
      else if c = CHR ''*'' \<and> \<not> inrange then 0
      else 1 + scan inrange p)"

definition scanChunk :: "string \<Rightarrow> bool \<times> string \<times> string" where
  "scanChunk pattern =
     (let p = dropWhile (\<lambda>c. c = CHR ''*'') pattern; i = scan False p
      in (pattern \<noteq> [] \<and> hd pattern = CHR ''*'', take i p, drop i p))"

text \<open>
  \<^verbatim>\<open>getEsc\<close> reads one character of a character class, escaped or not, and fails when
  the class ends there.
\<close>

definition getEsc :: "string \<Rightarrow> error + char \<times> string" where
  "getEsc chunk =
     (if chunk = [] \<or> hd chunk = CHR ''-'' \<or> hd chunk = CHR '']'' then Inl ErrBadPattern
      else
        let chunk1 = (if hd chunk = CHR 0x5C then tl chunk else chunk) in
          if chunk1 = [] \<or> tl chunk1 = [] then Inl ErrBadPattern
          else Inr (hd chunk1, tl chunk1))"

text \<open>
  The loop of \<^verbatim>\<open>matchChunk\<close> over the ranges of a character class: \<open>r\<close> is the rune to
  match, \<open>match\<close> whether a range before held it, \<open>nrange\<close> the number of ranges read.
  It ends at the closing bracket and returns what follows it.
\<close>

function ranges :: "string \<Rightarrow> char \<Rightarrow> bool \<Rightarrow> nat \<Rightarrow> error + bool \<times> string" where
  "ranges chunk r match nrange =
     (if chunk \<noteq> [] \<and> hd chunk = CHR '']'' \<and> 0 < nrange then Inr (match, tl chunk)
      else
        (case getEsc chunk of
           Inl err \<Rightarrow> Inl err
         | Inr (lo, chunk1) \<Rightarrow>
             (case (if hd chunk1 = CHR ''-'' then getEsc (tl chunk1) else Inr (lo, chunk1)) of
                Inl err \<Rightarrow> Inl err
              | Inr (hi, chunk2) \<Rightarrow>
                  ranges chunk2 r (match \<or> (lo \<le> r \<and> r \<le> hi)) (nrange + 1))))"
  by pat_completeness auto
termination
proof (relation "measure (\<lambda>(chunk, r, match, nrange). length chunk)")
  show "wf (measure (\<lambda>(chunk, r, match, nrange). length chunk))"
    by simp
next
  fix chunk chunk1 chunk2 :: string and r lo hi :: char and match :: bool and nrange :: nat
    and b ba :: "char \<times> string"
  assume a: "getEsc chunk = Inr b" "(lo, chunk1) = b"
    and c: "(if hd chunk1 = CHR ''-'' then getEsc (tl chunk1) else Inr (lo, chunk1)) = Inr ba"
      "(hi, chunk2) = ba"
  have shorter: "length d < length c" if "getEsc c = Inr (x, d)" for c d x
    using that by (cases c) (auto simp: getEsc_def Let_def split: if_splits)
  from a have "length chunk1 < length chunk"
    using shorter[of chunk lo chunk1] by simp
  moreover have "length chunk2 \<le> length chunk1"
    using c shorter[of "tl chunk1" hi chunk2] by (auto split: if_splits)
  ultimately show "((chunk2, r, match \<or> lo \<le> r \<and> r \<le> hi, nrange + 1), chunk, r, match, nrange)
      \<in> measure (\<lambda>(chunk, r, match, nrange). length chunk)"
    by simp
qed

declare ranges.simps [simp del]

text \<open>
  \<^verbatim>\<open>matchChunk\<close> checks whether the chunk matches the beginning of \<open>s\<close>, and returns the
  rest of \<open>s\<close> when it does. After the match has failed, the loop goes on through the
  chunk to see that it is well formed, and no longer reads \<open>s\<close>.
\<close>

function matchChunk_loop :: "string \<Rightarrow> string \<Rightarrow> bool \<Rightarrow> error + string \<times> bool" where
  "matchChunk_loop chunk s failed =
     (if chunk = [] then Inr (if failed then ([], False) else (s, True))
      else
        let failed' = (failed \<or> s = []);
            s' = (if failed' then s else tl s)
        in
          if hd chunk = CHR ''['' then
            (let r = (if failed' then CHR 0x00 else hd s);
                 negated = (tl chunk \<noteq> [] \<and> hd (tl chunk) = CHR ''^'');
                 chunk1 = (if negated then tl (tl chunk) else tl chunk)
             in case ranges chunk1 r False 0 of
                  Inl err \<Rightarrow> Inl err
                | Inr (match, chunk2) \<Rightarrow>
                    matchChunk_loop chunk2 s' (failed' \<or> match = negated))
          else if hd chunk = CHR ''?'' then
            matchChunk_loop (tl chunk) s' (failed' \<or> hd s = CHR ''/'')
          else if hd chunk = CHR 0x5C then
            (if tl chunk = [] then Inl ErrBadPattern
             else matchChunk_loop (tl (tl chunk)) s' (failed' \<or> hd (tl chunk) \<noteq> hd s))
          else matchChunk_loop (tl chunk) s' (failed' \<or> hd chunk \<noteq> hd s))"
  by pat_completeness auto
termination
proof -
  have shorter: "length d \<le> length c" if "ranges c r m n = Inr (x, d)" for c r m n x d
    using that
  proof (induction c r m n rule: ranges.induct)
    case (1 chunk r match nrange)
    show ?case
    proof (cases "chunk \<noteq> [] \<and> hd chunk = CHR '']'' \<and> 0 < nrange")
      case True
      with "1.prems" show ?thesis
        by (subst (asm) ranges.simps) auto
    next
      case False
      from "1.prems" False obtain lo chunk1 hi chunk2 where g:
        "getEsc chunk = Inr (lo, chunk1)"
        "(if hd chunk1 = CHR ''-'' then getEsc (tl chunk1) else Inr (lo, chunk1)) =
           Inr (hi, chunk2)"
        "ranges chunk2 r (match \<or> (lo \<le> r \<and> r \<le> hi)) (nrange + 1) = Inr (x, d)"
        by (subst (asm) ranges.simps) (auto split: sum.splits if_splits)
      have esc: "length d' < length c'" if "getEsc c' = Inr (y, d')" for c' d' y
        using that by (cases c') (auto simp: getEsc_def Let_def split: if_splits)
      have "length chunk2 \<le> length chunk"
        using esc[OF g(1)] g(2) esc[of "tl chunk1" hi chunk2] by (auto split: if_splits)
      with "1.IH"[OF False g(1) refl g(2) refl g(3)] show ?thesis
        by simp
    qed
  qed
  show ?thesis
    by (relation "measure (\<lambda>(chunk, s, failed). length chunk)")
      (auto dest!: shorter split: if_splits simp del: length_greater_0_conv
        simp add: length_greater_0_conv[symmetric])
qed

declare matchChunk_loop.simps [simp del]

definition matchChunk :: "string \<Rightarrow> string \<Rightarrow> error + string \<times> bool" where
  "matchChunk chunk s = matchChunk_loop chunk s False"

text \<open>
  The loop of \<^verbatim>\<open>Match\<close> that runs after a star when the chunk does not match at once:
  it skips one character of the name after the other, never a slash, and tries the chunk
  after each. \<open>final\<close> says that the chunk is the last one, which must match to the end
  of the name.
\<close>

fun star_skip :: "string \<Rightarrow> string \<Rightarrow> bool \<Rightarrow> error + string option" where
  "star_skip chunk [] final = Inr None"
| "star_skip chunk (c # name) final =
     (if c = CHR ''/'' then Inr None
      else
        (case matchChunk chunk name of
           Inl err \<Rightarrow> Inl err
         | Inr (t, ok) \<Rightarrow>
             if ok \<and> \<not> (final \<and> t \<noteq> []) then Inr (Some t)
             else star_skip chunk name final))"

text \<open>
  The last loop of \<^verbatim>\<open>Match\<close>: before the answer that the name does not match, the
  rest of the pattern is read chunk by chunk against the empty name, so that a chunk that
  is not well formed is reported.
\<close>

function Match_rest :: "string \<Rightarrow> error + bool" where
  "Match_rest pattern =
     (if pattern = [] then Inr False
      else
        (case scanChunk pattern of
           (star, chunk, rest) \<Rightarrow>
             (case matchChunk chunk [] of
                Inl err \<Rightarrow> Inl err
              | Inr (t, ok) \<Rightarrow> Match_rest rest)))"
  by pat_completeness auto
termination
proof -
  have first: "0 < scan False p" if "p \<noteq> []" "hd p \<noteq> CHR ''*''" for p
    using that by (cases p) (auto split: list.splits)
  have shorter: "length rest < length pattern"
    if "pattern \<noteq> []" "scanChunk pattern = (star, chunk, rest)" for pattern star chunk rest
  proof (cases "hd pattern = CHR ''*''")
    case True
    with that(1) have "length (dropWhile (\<lambda>c. c = CHR ''*'') pattern) < length pattern"
      by (cases pattern) (auto intro: le_imp_less_Suc length_dropWhile_le)
    with that(2) show ?thesis
      by (auto simp: scanChunk_def Let_def)
  next
    case False
    with that(1) have "dropWhile (\<lambda>c. c = CHR ''*'') pattern = pattern"
      by (cases pattern) auto
    with that first[OF that(1) False] show ?thesis
      by (auto simp: scanChunk_def Let_def)
  qed
  show ?thesis
    by (relation "measure length") (auto dest: shorter[OF _ sym])
qed

declare Match_rest.simps [simp del]

text \<open>
  \<^verbatim>\<open>Match\<close>: chunk after chunk of the pattern is matched against the name. A star
  alone at the end of the pattern takes the rest of the name unless that has a slash.
\<close>

function filepath_Match :: "string \<Rightarrow> string \<Rightarrow> error + bool" where
  "filepath_Match pattern name =
     (if pattern = [] then Inr (name = [])
      else
        (case scanChunk pattern of
           (star, chunk, rest) \<Rightarrow>
             if star \<and> chunk = [] then Inr (CHR ''/'' \<notin> set name)
             else
               (case matchChunk chunk name of
                  Inl err \<Rightarrow> Inl err
                | Inr (t, ok) \<Rightarrow>
                    if ok \<and> (t = [] \<or> rest \<noteq> []) then filepath_Match rest t
                    else if star then
                      (case star_skip chunk name (rest = []) of
                         Inl err \<Rightarrow> Inl err
                       | Inr None \<Rightarrow> Match_rest rest
                       | Inr (Some t') \<Rightarrow> filepath_Match rest t')
                    else Match_rest rest)))"
  by pat_completeness auto
termination
proof -
  have first: "0 < scan False p" if "p \<noteq> []" "hd p \<noteq> CHR ''*''" for p
    using that by (cases p) (auto split: list.splits)
  have shorter: "length rest < length pattern"
    if "pattern \<noteq> []" "scanChunk pattern = (star, chunk, rest)" for pattern star chunk rest
  proof (cases "hd pattern = CHR ''*''")
    case True
    with that(1) have "length (dropWhile (\<lambda>c. c = CHR ''*'') pattern) < length pattern"
      by (cases pattern) (auto intro: le_imp_less_Suc length_dropWhile_le)
    with that(2) show ?thesis
      by (auto simp: scanChunk_def Let_def)
  next
    case False
    with that(1) have "dropWhile (\<lambda>c. c = CHR ''*'') pattern = pattern"
      by (cases pattern) auto
    with that first[OF that(1) False] show ?thesis
      by (auto simp: scanChunk_def Let_def)
  qed
  show ?thesis
    by (relation "measure (\<lambda>(pattern, name). length pattern)")
      (auto dest: shorter[OF _ sym])
qed

declare filepath_Match.simps [simp del]

text \<open>
  \<^verbatim>\<open>filepath.Split\<close> cuts a path after its last slash, and \<^verbatim>\<open>cleanGlobPath\<close> prepares
  the directory part for \<^verbatim>\<open>glob\<close>. \<^verbatim>\<open>os.Lstat\<close> is \<^verbatim>\<open>os.Stat\<close>, as there are no links.
\<close>

definition filepath_Split :: "string \<Rightarrow> string \<times> string" where
  "filepath_Split path =
     (let file = rev (takeWhile (\<lambda>c. c \<noteq> CHR ''/'') (rev path))
      in (take (length path - length file) path, file))"

definition cleanGlobPath :: "string \<Rightarrow> string" where
  "cleanGlobPath path = (if path = [] then ''.'' else if path = ''/'' then path else butlast path)"

definition hasMeta :: "string \<Rightarrow> bool" where
  "hasMeta p = (\<exists>c \<in> set p. c \<in> {CHR ''*'', CHR ''?'', CHR ''['', CHR 0x5C})"

definition os_Lstat :: "filesystem \<Rightarrow> string \<Rightarrow> error + node" where
  "os_Lstat fs p = os_Stat fs p"

text \<open>
  \<^verbatim>\<open>glob\<close> appends to the matches the entries of the directory whose names match the
  pattern, in the order of their names. A directory that cannot be read adds nothing. The
  matches found before an error of \<^verbatim>\<open>Match\<close> are left out of the result: the callers
  drop them.
\<close>

fun glob_names :: "string \<Rightarrow> string \<Rightarrow> string list \<Rightarrow> string list \<Rightarrow> error + string list" where
  "glob_names dir pattern [] m = Inr m"
| "glob_names dir pattern (n # names) m =
     (case filepath_Match pattern n of
        Inl err \<Rightarrow> Inl err
      | Inr matched \<Rightarrow>
          glob_names dir pattern names (if matched then m @ [filepath_Join dir n] else m))"

definition glob :: "filesystem \<Rightarrow> string \<Rightarrow> string \<Rightarrow> string list \<Rightarrow> error + string list" where
  "glob fs dir pattern matches =
     (case os_Stat fs dir of
        Inl err \<Rightarrow> Inr matches
      | Inr fi \<Rightarrow>
          if \<not> FileInfo_IsDir fi then Inr matches
          else glob_names dir pattern (Readdirnames fs dir) matches)"

text \<open>The loop of \<^verbatim>\<open>Glob\<close> over the directories that match the directory part.\<close>

fun glob_dirs :: "filesystem \<Rightarrow> string \<Rightarrow> string list \<Rightarrow> string list \<Rightarrow> error + string list" where
  "glob_dirs fs file [] matches = Inr matches"
| "glob_dirs fs file (d # m) matches =
     (case glob fs d file matches of
        Inl err \<Rightarrow> Inl err
      | Inr matches' \<Rightarrow> glob_dirs fs file m matches')"

text \<open>
  \<^verbatim>\<open>filepath.Glob\<close>. The pattern must be well formed as far as \<^verbatim>\<open>Match\<close> on the empty
  name reads it. A pattern without pattern characters names at most one path. Otherwise
  the pattern is split: when the directory part has no pattern character, the entries of
  that directory are matched against the last element; when it has, it is itself a
  pattern, and the last element is matched in each directory that it yields. So a
  directory whose own name holds a pattern character is not read under its name. The
  depth of the recursion is limited to 10000.
\<close>

function globWithLimit :: "filesystem \<Rightarrow> string \<Rightarrow> nat \<Rightarrow> error + string list" where
  "globWithLimit fs pattern depth =
     (if depth = 10000 then Inl ErrBadPattern
      else
        (case filepath_Match pattern [] of
           Inl err \<Rightarrow> Inl err
         | Inr matched \<Rightarrow>
             if \<not> hasMeta pattern then
               (case os_Lstat fs pattern of Inl err \<Rightarrow> Inr [] | Inr fi \<Rightarrow> Inr [pattern])
             else
               (case filepath_Split pattern of
                  (dir0, file) \<Rightarrow>
                    let dir = cleanGlobPath dir0 in
                      if \<not> hasMeta dir then glob fs dir file []
                      else if dir = pattern then Inl ErrBadPattern
                      else
                        (case globWithLimit fs dir (depth + 1) of
                           Inl err \<Rightarrow> Inl err
                         | Inr m \<Rightarrow> glob_dirs fs file m []))))"
  by pat_completeness auto
termination
proof (relation "measure (\<lambda>(fs, pattern, depth). length pattern)")
  show "wf (measure (\<lambda>(fs, pattern, depth). length pattern))"
    by simp
next
  fix fs :: filesystem and pattern dir0 f dir :: string and depth :: nat and matched :: bool
  assume s: "(dir0, f) = filepath_Split pattern" and d: "dir = cleanGlobPath dir0"
    and m: "\<not> \<not> hasMeta dir"
  from m d have "dir0 \<noteq> []" "dir = butlast dir0"
    by (auto simp: cleanGlobPath_def hasMeta_def split: if_splits)
  then have "length dir < length dir0"
    by simp
  also have "length dir0 \<le> length pattern"
    using s by (simp add: filepath_Split_def Let_def)
  finally show "((fs, dir, depth + 1), fs, pattern, depth)
      \<in> measure (\<lambda>(fs, pattern, depth). length pattern)"
    by simp
qed

declare globWithLimit.simps [simp del]

definition filepath_Glob :: "filesystem \<Rightarrow> string \<Rightarrow> error + string list" where
  "filepath_Glob fs pattern = globWithLimit fs pattern 0"

text \<open>
  A cleaned path, as \<^verbatim>\<open>filepath.Clean\<close> returns it: the working directory, the root, or
  elements that are names, joined by single slashes, after a leading slash or after leading
  \<^verbatim>\<open>..\<close> elements.
\<close>

fun double_slash :: "string \<Rightarrow> bool" where
  "double_slash (c # d # r) = ((c = CHR ''/'' \<and> d = CHR ''/'') \<or> double_slash (d # r))"
| "double_slash r = False"

definition cleaned :: "string \<Rightarrow> bool" where
  "cleaned p =
     (p = ''.'' \<or> p = ''/'' \<or>
      (p \<noteq> [] \<and> last p \<noteq> CHR ''/'' \<and> \<not> double_slash p \<and>
       (if hd p = CHR ''/'' then list_all is_name (elems (tl p))
        else list_all is_name (dropWhile (\<lambda>e. e = ''..'') (elems p)))))"

section \<open>The operations on files\<close>

subsection \<open>addFileToTarWriter\<close>

definition addFileToTarWriter ::
  "stdlib \<Rightarrow> filesystem \<Rightarrow> string \<Rightarrow> string \<Rightarrow> tar_Writer \<Rightarrow> error option \<times> tar_Writer" where
  "addFileToTarWriter lib fs filePath dirPath tarWriter =
     (case os_Open fs filePath of
        Inl err \<Rightarrow> (Some err, tarWriter)
      | Inr file \<Rightarrow>
          (case os_File_Stat file of
             Inl err \<Rightarrow> (Some err, tarWriter)
           | Inr info \<Rightarrow>
               (case filepath_Rel dirPath filePath of
                  Inl err \<Rightarrow> (Some err, tarWriter)
                | Inr relFilePath \<Rightarrow>
                    (let header =
                           \<lparr>Name = relFilePath,
                            Size = FileInfo_Size info,
                            Mode = FileInfo_Mode info,
                            ModTime = FileInfo_ModTime info\<rparr>
                     in case tar_WriteHeader lib tarWriter header of
                          (Some err, tw') \<Rightarrow> (Some err, tw')
                        | (None, tw') \<Rightarrow> io_Copy tw' (os_File_source file)))))"

subsection \<open>CreateGzippedTarball\<close>

text \<open>
  The loop over the file paths (lines 96 to 109). The path of the tarball is skipped. The
  first file that cannot be added ends the loop with the wrapped error. The result of
  \<^verbatim>\<open>os.Remove\<close> is dropped, as in the source: only its effect on the file system stays.
\<close>

fun CreateGzippedTarball_loop ::
  "stdlib \<Rightarrow> string \<Rightarrow> string \<Rightarrow> bool \<Rightarrow> string list \<Rightarrow> tar_Writer \<Rightarrow> filesystem \<Rightarrow>
     error option \<times> tar_Writer \<times> filesystem" where
  "CreateGzippedTarball_loop lib tarFilePath dirOfPath removeFiles [] tarWriter fs =
     (None, tarWriter, fs)"
| "CreateGzippedTarball_loop lib tarFilePath dirOfPath removeFiles (filePath # filePaths)
       tarWriter fs =
     (if filePath = tarFilePath
      then CreateGzippedTarball_loop lib tarFilePath dirOfPath removeFiles filePaths tarWriter fs
      else
        (case addFileToTarWriter lib fs filePath dirOfPath tarWriter of
           (Some err, tw') \<Rightarrow>
             (Some (Errorf (''failed to add '' @ filePath @ '' to tar writer: '' @
                Error_string err)), tw', fs)
         | (None, tw') \<Rightarrow>
             CreateGzippedTarball_loop lib tarFilePath dirOfPath removeFiles filePaths tw'
               (if removeFiles then snd (os_Remove fs filePath) else fs)))"

text \<open>
  The three deferred \<^verbatim>\<open>Close\<close> calls, in the order in which they run when the function
  returns after \<^verbatim>\<open>os.Create\<close> has succeeded: the tar writer, the gzip writer, the file.
  Their errors are dropped. The file then holds what the writers have produced.
\<close>

definition CreateGzippedTarball_deferred ::
  "stdlib \<Rightarrow> string \<Rightarrow> tar_Writer \<Rightarrow> filesystem \<Rightarrow> filesystem" where
  "CreateGzippedTarball_deferred lib tarFilePath tarWriter fs =
     close_file fs tarFilePath (sink_bytes lib (snd (tar_Close tarWriter)))"

text \<open>
  \<^verbatim>\<open>CreateGzippedTarball\<close> returns its error and leaves the file system changed: the
  result is the pair of the error and the file system after the call.
\<close>

definition CreateGzippedTarball ::
  "stdlib \<Rightarrow> filesystem \<Rightarrow> string \<Rightarrow> string \<Rightarrow> bool \<Rightarrow> error option \<times> filesystem" where
  "CreateGzippedTarball lib fs tarFilePath path removeFiles =
     (case os_Stat fs path of
        Inl err \<Rightarrow>
          (Some (Errorf (''failed to get file info of '' @ path @ '': '' @ Error_string err)),
           fs)
      | Inr info \<Rightarrow>
          (let tarballDir = filepath_Dir tarFilePath in
           case os_MkdirAll fs tarballDir 448 of
             (Some err, fs1) \<Rightarrow>
               (Some (Errorf (''failed to create parent paths for '' @ tarFilePath @ '': '' @
                  Error_string err)), fs1)
           | (None, fs1) \<Rightarrow>
               (case os_Create fs1 tarFilePath of
                  Inl err \<Rightarrow>
                    (Some (Errorf (''failed to create file '' @ tarFilePath @ '': '' @
                       Error_string err)), fs1)
                | Inr fs2 \<Rightarrow>
                    (let tarWriter = tar_NewWriter in
                     case (if \<not> FileInfo_IsDir info then Inr [path]
                           else filepath_Glob fs2 (path @ ''/*'')) of
                       Inl err \<Rightarrow>
                         (Some (Errorf (''failed to get all files under '' @ path @ '': '' @
                            Error_string err)),
                          CreateGzippedTarball_deferred lib tarFilePath tarWriter fs2)
                     | Inr filePaths \<Rightarrow>
                         (let dirOfPath = filepath_Dir path in
                          case CreateGzippedTarball_loop lib tarFilePath dirOfPath removeFiles
                                 filePaths tarWriter fs2 of
                            (err, tw', fs3) \<Rightarrow>
                              (err, CreateGzippedTarball_deferred lib tarFilePath tw' fs3))))))"

subsection \<open>GetFilePathsWithRegex\<close>

text \<open>
  A Go call either returns or panics. \<^verbatim>\<open>regexp.MustCompile\<close> panics on a pattern that
  \<^verbatim>\<open>regexp.Compile\<close> rejects; the panic carries the error of the compiler.
\<close>

datatype 'a outcome = Return 'a | Panic error

text \<open>
  The regular expression library is a parameter: \<open>regexp_Compile regex\<close> is the error of
  \<^verbatim>\<open>regexp.Compile\<close>, or the predicate \<^verbatim>\<open>MatchString\<close> of the compiled expression.
\<close>

type_synonym regexp_Compile = "string \<Rightarrow> error + (string \<Rightarrow> bool)"

text \<open>
  The loop of \<^verbatim>\<open>GetFilePathsWithRegex\<close> (lines 127 to 140). The pattern is compiled
  inside the loop, after a header has been read. Payloads are never read.
\<close>

function GetFilePathsWithRegex_loop ::
  "regexp_Compile \<Rightarrow> string \<Rightarrow> tar_Reader \<Rightarrow> string list \<Rightarrow>
     (string list \<times> error option) outcome" where
  "GetFilePathsWithRegex_loop regexp_Compile regex tarReader files =
     (case tar_Next tarReader of
        (Inl err, _) \<Rightarrow> Return (files, if err = EOF then None else Some err)
      | (Inr header, tarReader') \<Rightarrow>
          (case regexp_Compile regex of
             Inl err \<Rightarrow> Panic err
           | Inr r \<Rightarrow>
               GetFilePathsWithRegex_loop regexp_Compile regex tarReader'
                 (if r (Name header) then files @ [Name header] else files)))"
  by pat_completeness auto
termination
  by (relation "measure (\<lambda>(comp, regex, r, files). headers_left (upcoming r))")
    (auto simp: tar_Next_def split: option.splits tar_stream.splits)

declare GetFilePathsWithRegex_loop.simps [simp del]

text \<open>\<^verbatim>\<open>gzip.NewReader\<close> on an open file: it reads the file first.\<close>

definition gzip_NewReader_file :: "stdlib \<Rightarrow> os_File \<Rightarrow> error + tar_stream" where
  "gzip_NewReader_file lib file =
     (case os_File_source file of
        (b, None) \<Rightarrow> gzip_NewReader lib b
      | (b, Some err) \<Rightarrow> Inl err)"

text \<open>
  \<^verbatim>\<open>GetFilePathsWithRegex\<close> returns the names (the empty list for \<^verbatim>\<open>nil\<close>) and the
  error.
\<close>

definition GetFilePathsWithRegex ::
  "stdlib \<Rightarrow> regexp_Compile \<Rightarrow> filesystem \<Rightarrow> string \<Rightarrow> string \<Rightarrow>
     (string list \<times> error option) outcome" where
  "GetFilePathsWithRegex lib regexp_Compile fs tarFilePath regex =
     (case os_Open fs tarFilePath of
        Inl err \<Rightarrow> Return ([], Some err)
      | Inr file \<Rightarrow>
          (case gzip_NewReader_file lib file of
             Inl err \<Rightarrow> Return ([], Some err)
           | Inr gzipReader \<Rightarrow>
               GetFilePathsWithRegex_loop regexp_Compile regex (tar_NewReader gzipReader) []))"

section \<open>Notions used to state the properties\<close>

text \<open>The stream that delivers the entries \<open>es\<close> and then goes on as \<open>t\<close>.\<close>

fun followed_by :: "(Header \<times> byte list) list \<Rightarrow> tar_stream \<Rightarrow> tar_stream" where
  "followed_by [] t = t"
| "followed_by ((h, b) # es) t = Entry h b (followed_by es t)"

text \<open>
  An entry that a tar writer takes without error: the payload has the announced size and
  the header fits a format.
\<close>

definition valid_entry :: "stdlib \<Rightarrow> Header \<times> byte list \<Rightarrow> bool" where
  "valid_entry lib e = (Size (fst e) = length (snd e) \<and> allowedFormats lib (fst e) = None)"

text \<open>
  Bytes that hold a valid archive with the entries \<open>es\<close>: they decode to exactly these
  entries and a regular end.
\<close>

definition valid_archive :: "stdlib \<Rightarrow> byte list \<Rightarrow> (Header \<times> byte list) list \<Rightarrow> bool" where
  "valid_archive lib data es =
     (gzip_NewReader lib data = Inr (followed_by es (Stop EOF)) \<and> list_all (valid_entry lib) es)"

text \<open>The number of entries that a reader finds in the bytes.\<close>

definition entry_count :: "stdlib \<Rightarrow> byte list \<Rightarrow> nat" where
  "entry_count lib data =
     (case gzip_NewReader lib data of Inl err \<Rightarrow> 0 | Inr s \<Rightarrow> headers_left s)"

text \<open>
  The contract between the writers and the readers of the library: what a tar writer and
  a gzip writer produce from valid entries and close properly, the readers read back.
\<close>

definition reads_back :: "stdlib \<Rightarrow> bool" where
  "reads_back lib =
     (\<forall>es. list_all (valid_entry lib) es \<longrightarrow>
        gzip_NewReader lib (gzip_tar lib es True) = Inr (followed_by es (Stop EOF)))"

text \<open>The state of a tar writer after it has taken the entry \<open>e\<close> as its current one.\<close>

definition put :: "tar_Writer \<Rightarrow> Header \<times> byte list \<Rightarrow> tar_Writer" where
  "put tw e = tw\<lparr>finished := written tw, current := Some e\<rparr>"

text \<open>The entry as \<^verbatim>\<open>WriteTarballToTarWriter\<close> passes it on under a prefix to trim.\<close>

definition trimmed :: "string \<Rightarrow> Header \<times> byte list \<Rightarrow> Header \<times> byte list" where
  "trimmed p e =
     (if p \<noteq> [] then (fst e)\<lparr>Name := strings_TrimPrefix (Name (fst e)) p\<rparr> else fst e, snd e)"

text \<open>A source that fails to decode: at the gzip header, between entries or inside a payload.\<close>

definition decode_fails :: "stdlib \<Rightarrow> byte list \<Rightarrow> bool" where
  "decode_fails lib data =
     ((\<exists>err. gzip_NewReader lib data = Inl err) \<or>
      (\<exists>es err. err \<noteq> EOF \<and> gzip_NewReader lib data = Inr (followed_by es (Stop err))) \<or>
      (\<exists>es h b err. err \<noteq> EOF \<and> gzip_NewReader lib data = Inr (followed_by es (Torn h b err))))"

section \<open>A miniature archive format\<close>

text \<open>
  An instance of the library parameters, small enough to run the functions on concrete
  inputs: one byte for every number, so a header fits when its name, mode, time and size
  are below 256. The bytes start with a magic byte; an entry is the tag 1, the length of
  the name, the name, mode, time, size and the payload; the tag 0 ends the archive.
\<close>

definition mini_entry :: "Header \<times> byte list \<Rightarrow> byte list" where
  "mini_entry e =
     1 # of_nat (length (Name (fst e))) # map (\<lambda>c. of_nat (of_char c)) (Name (fst e)) @
     [of_int (Mode (fst e)), of_int (ModTime (fst e)), of_nat (Size (fst e))] @ snd e"

definition mini_gzip_tar :: "(Header \<times> byte list) list \<Rightarrow> bool \<Rightarrow> byte list" where
  "mini_gzip_tar es marker = 31 # concat (map mini_entry es) @ (if marker then [0] else [])"

fun mini_untar :: "nat \<Rightarrow> byte list \<Rightarrow> tar_stream" where
  "mini_untar 0 bs = Stop (Corrupt ''unexpected EOF'')"
| "mini_untar (Suc k) [] = Stop (Corrupt ''unexpected EOF'')"
| "mini_untar (Suc k) [t] =
     (if t = 0 then Stop EOF else Stop (Corrupt ''archive/tar: invalid tar header''))"
| "mini_untar (Suc k) (t # nl # r) =
     (if t = 0 then Stop EOF
      else if t \<noteq> 1 then Stop (Corrupt ''archive/tar: invalid tar header'')
      else if length r < unat nl + 3 then Stop (Corrupt ''unexpected EOF'')
      else
        let meta = take 3 (drop (unat nl) r);
            body = drop (unat nl + 3) r;
            h = \<lparr>Name = map (\<lambda>w. char_of (unat w)) (take (unat nl) r),
                 Size = unat (meta ! 2),
                 Mode = uint (meta ! 0),
                 ModTime = uint (meta ! 1)\<rparr>
        in if length body < Size h then Torn h body (Corrupt ''unexpected EOF'')
           else Entry h (take (Size h) body) (mini_untar k (drop (Size h) body)))"

definition mini_gzip_NewReader :: "byte list \<Rightarrow> error + tar_stream" where
  "mini_gzip_NewReader data =
     (case data of
        [] \<Rightarrow> Inl EOF
      | m # rest \<Rightarrow>
          if m = 31 then Inr (mini_untar (length rest) rest)
          else Inl (Corrupt ''gzip: invalid header''))"

definition mini_allowedFormats :: "Header \<Rightarrow> error option" where
  "mini_allowedFormats h =
     (if length (Name h) < 256 \<and> 0 \<le> Mode h \<and> Mode h < 256 \<and> 0 \<le> ModTime h \<and>
         ModTime h < 256 \<and> Size h < 256
      then None else Some (Corrupt ''archive/tar: cannot encode header''))"

definition mini :: stdlib where
  "mini =
     \<lparr>gzip_NewReader = mini_gzip_NewReader,
      gzip_tar = mini_gzip_tar,
      allowedFormats = mini_allowedFormats\<rparr>"

text \<open>
  The same format under a stricter writer, which refuses an entry without a name; the
  reader still delivers such an entry. It stands for a library whose writer accepts fewer
  headers than its reader returns.
\<close>

definition picky :: stdlib where
  "picky =
     mini\<lparr>allowedFormats :=
       (\<lambda>h. if Name h = [] then Some (Corrupt ''archive/tar: cannot encode header'')
            else mini_allowedFormats h)\<rparr>"

text \<open>
  A miniature \<^verbatim>\<open>regexp.Compile\<close>: a pattern is a literal text to find anywhere in the
  name, and a pattern with an opening parenthesis is malformed.
\<close>

fun contains :: "string \<Rightarrow> string \<Rightarrow> bool" where
  "contains pat [] = (pat = [])"
| "contains pat (c # cs) = (prefix pat (c # cs) \<or> contains pat cs)"

definition mini_Compile :: regexp_Compile where
  "mini_Compile regex =
     (if CHR ''('' \<in> set regex
      then Inl (Corrupt ''error parsing regexp: missing closing )'')
      else Inr (contains regex))"

text \<open>A header for the concrete inputs below: mode 6 and time 9.\<close>

definition hdr :: "string \<Rightarrow> nat \<Rightarrow> Header" where
  "hdr n sz = \<lparr>Name = n, Size = sz, Mode = 6, ModTime = 9\<rparr>"

text \<open>A file system that holds one file, \<^verbatim>\<open>/t.tgz\<close>, with the given content.\<close>

definition fs_tgz :: "byte list \<Rightarrow> filesystem" where
  "fs_tgz data =
     \<lparr>nodes = [(''/t.tgz'', File data 6 9)], undeletable = [], clock = 0, dirsize = 0\<rparr>"

text \<open>
  A file system with a directory \<^verbatim>\<open>/data\<close> of two regular files, one of which the system
  refuses to delete, and an empty directory \<^verbatim>\<open>/out\<close>.
\<close>

definition fs_data :: filesystem where
  "fs_data =
     \<lparr>nodes =
        [(''/data'', Dir 4096 2147484141 5),
         (''/data/a.txt'', File [1, 2, 3] 6 10),
         (''/data/b.txt'', File [7, 8] 6 11),
         (''/out'', Dir 4096 2147484141 5)],
      undeletable = [''/data/b.txt''], clock = 100, dirsize = 4096\<rparr>"

text \<open>
  A file system with a directory whose name holds a pattern character: \<^verbatim>\<open>/d[1]\<close> with
  one file. There is no directory \<^verbatim>\<open>/d1\<close>.
\<close>

definition fs_brackets :: filesystem where
  "fs_brackets =
     \<lparr>nodes = [(''/'', Dir 4096 2147484141 5), (''/d[1]'', Dir 4096 2147484141 5),
        (''/d[1]/a.txt'', File [1, 2, 3] 6 10), (''/out'', Dir 4096 2147484141 5)],
      undeletable = [], clock = 100, dirsize = 4096\<rparr>"

section \<open>Auxiliary facts\<close>

subsection \<open>The tar writer, entry by entry\<close>

lemma written_put: "written (put tw e) = written tw @ [e]"
  by (simp add: put_def written_def)

lemma closed_put: "closed (put tw e) = closed tw"
  by (simp add: put_def)

lemma trailer_put: "trailer (put tw e) = trailer tw"
  by (simp add: put_def)

lemma remaining_put: "remaining (put tw e) = Size (fst e) - length (snd e)"
  by (cases e) (simp add: put_def remaining_def)

lemma written_fold_put: "written (fold (\<lambda>e tw. put tw e) es tw) = written tw @ es"
  by (induction es arbitrary: tw) (simp_all add: written_put)

lemma closed_fold_put: "closed (fold (\<lambda>e tw. put tw e) es tw) = closed tw"
  by (induction es arbitrary: tw) (simp_all add: closed_put)

lemma trailer_fold_put: "trailer (fold (\<lambda>e tw. put tw e) es tw) = trailer tw"
  by (induction es arbitrary: tw) (simp_all add: trailer_put)

lemma remaining_fold_put:
  "list_all (valid_entry lib) es \<Longrightarrow> remaining tw = 0 \<Longrightarrow>
     remaining (fold (\<lambda>e tw. put tw e) es tw) = 0"
  by (induction es arbitrary: tw) (simp_all add: remaining_put valid_entry_def)

lemma tar_WriteHeader_ok:
  "\<not> closed tw \<Longrightarrow> remaining tw = 0 \<Longrightarrow> allowedFormats lib h = None \<Longrightarrow>
     tar_WriteHeader lib tw h = (None, put tw (h, []))"
  by (simp add: tar_WriteHeader_def put_def)

lemma io_Copy_ok:
  "\<not> closed tw \<Longrightarrow> length b \<le> Size h \<Longrightarrow>
     io_Copy (put tw (h, [])) (b, f) = (snd (ioutil_ReadAll (b, f)), put tw (h, b))"
  by (auto simp: io_Copy_def tar_Write_def put_def remaining_def written_def Let_def
      min_def)

lemma tar_WriteHeader_closed: "closed (snd (tar_WriteHeader lib tw h)) = closed tw"
  by (simp add: tar_WriteHeader_def split: option.splits)

lemma io_Copy_closed: "closed (snd (io_Copy tw src)) = closed tw"
  by (simp add: io_Copy_def tar_Write_def Let_def split: option.splits prod.splits)

lemma tar_Close_open:
  "\<not> closed tw \<Longrightarrow> remaining tw = 0 \<Longrightarrow> tar_Close tw = (None, tw\<lparr>closed := True, trailer := True\<rparr>)"
  by (simp add: tar_Close_def)

subsection \<open>The tar reader on a stream\<close>

lemma tar_Next_new:
  "tar_Next (tar_NewReader (Stop err)) = (Inl err, tar_NewReader (Stop err))"
  "tar_Next (tar_NewReader (Entry h b s)) = (Inr h, \<lparr>curr = b, fault = None, upcoming = s\<rparr>)"
  "tar_Next (tar_NewReader (Torn h b err)) =
     (Inr h, \<lparr>curr = b, fault = Some err, upcoming = Stop err\<rparr>)"
  by (simp_all add: tar_Next_def tar_NewReader_def)

lemma tar_Next_at:
  "fault r = None \<Longrightarrow>
     fst (tar_Next r) = fst (tar_Next (tar_NewReader (upcoming r))) \<and>
     (\<forall>h. fst (tar_Next r) = Inr h \<longrightarrow>
        snd (tar_Next r) = snd (tar_Next (tar_NewReader (upcoming r))))"
  by (simp add: tar_Next_def tar_NewReader_def split: tar_stream.splits)

lemma tar_Next_torn:
  "tar_Next \<lparr>curr = b, fault = Some err, upcoming = s\<rparr> =
     (Inl err, \<lparr>curr = b, fault = Some err, upcoming = s\<rparr>)"
  by (simp add: tar_Next_def)

subsection \<open>WriteTarballToTarWriter and CombineTarballs on a stream\<close>

lemma Combine_loop_eq:
  "CombineTarballs_loop lib r tw = WriteTarballToTarWriter_loop lib r tw []"
proof (induction lib r tw rule: CombineTarballs_loop.induct)
  case (1 lib r tw)
  show ?case
    by (subst CombineTarballs_loop.simps, subst WriteTarballToTarWriter_loop.simps)
      (use 1 in \<open>auto split: prod.splits sum.splits option.splits\<close>)
qed

lemma Write_loop_step:
  "WriteTarballToTarWriter_loop lib r tw p =
     (case tar_Next r of
        (Inl err, r') \<Rightarrow> (if err = EOF then None else Some err, tw)
      | (Inr h, r') \<Rightarrow>
          (case tar_WriteHeader lib tw (fst (trimmed p (h, []))) of
             (Some err, tw') \<Rightarrow> (Some err, tw')
           | (None, tw') \<Rightarrow>
               (case io_Copy tw' (tar_Reader_source r') of
                  (Some err, tw'') \<Rightarrow> (Some err, tw'')
                | (None, tw'') \<Rightarrow> WriteTarballToTarWriter_loop lib r' tw'' p)))"
  by (subst WriteTarballToTarWriter_loop.simps) (simp only: Let_def trimmed_def fst_conv)

lemma fst_trimmed: "fst (trimmed p (h, b)) = fst (trimmed p (h, []))"
  and snd_trimmed: "snd (trimmed p (h, b)) = b"
  and trimmed_pair: "trimmed p (h, b) = (fst (trimmed p (h, [])), b)"
  by (simp_all add: trimmed_def)

lemma Write_loop_at:
  assumes "fault r = None"
  shows "WriteTarballToTarWriter_loop lib r tw p =
    WriteTarballToTarWriter_loop lib (tar_NewReader (upcoming r)) tw p"
proof -
  obtain x r' where n: "tar_Next r = (x, r')" by (cases "tar_Next r")
  obtain y r'' where n': "tar_Next (tar_NewReader (upcoming r)) = (y, r'')"
    by (cases "tar_Next (tar_NewReader (upcoming r))")
  from tar_Next_at[OF assms] n n' have xy: "y = x" and rr: "\<And>h. x = Inr h \<Longrightarrow> r'' = r'"
    by auto
  show ?thesis
    by (subst Write_loop_step, subst (2) Write_loop_step)
      (use n n' xy rr in \<open>auto split: sum.splits\<close>)
qed

lemma Write_loop_Stop:
  "WriteTarballToTarWriter_loop lib (tar_NewReader (Stop err)) tw p =
     (if err = EOF then None else Some err, tw)"
  by (subst Write_loop_step) (simp add: tar_Next_new)

lemma Write_loop_Entry_step:
  "WriteTarballToTarWriter_loop lib (tar_NewReader (Entry h b s)) tw p =
     (case tar_WriteHeader lib tw (fst (trimmed p (h, []))) of
        (Some err, tw') \<Rightarrow> (Some err, tw')
      | (None, tw') \<Rightarrow>
          (case io_Copy tw' (b, None) of
             (Some err, tw'') \<Rightarrow> (Some err, tw'')
           | (None, tw'') \<Rightarrow> WriteTarballToTarWriter_loop lib (tar_NewReader s) tw'' p))"
proof -
  have at: "\<And>tw. WriteTarballToTarWriter_loop lib \<lparr>curr = b, fault = None, upcoming = s\<rparr> tw p
     = WriteTarballToTarWriter_loop lib (tar_NewReader s) tw p"
    by (subst Write_loop_at) simp_all
  show ?thesis
    by (subst Write_loop_step)
      (simp add: tar_Next_new at tar_Reader_source_def cong: prod.case_cong option.case_cong)
qed

lemma Write_loop_Torn_step:
  "WriteTarballToTarWriter_loop lib (tar_NewReader (Torn h b err)) tw p =
     (case tar_WriteHeader lib tw (fst (trimmed p (h, []))) of
        (Some err', tw') \<Rightarrow> (Some err', tw')
      | (None, tw') \<Rightarrow>
          (case io_Copy tw' (b, Some err) of
             (Some err', tw'') \<Rightarrow> (Some err', tw'')
           | (None, tw'') \<Rightarrow> (if err = EOF then None else Some err, tw'')))"
proof -
  have at: "\<And>tw. WriteTarballToTarWriter_loop lib \<lparr>curr = b, fault = Some err, upcoming = Stop err\<rparr> tw p
     = (if err = EOF then None else Some err, tw)"
    by (subst Write_loop_step) (simp add: tar_Next_torn)
  show ?thesis
    by (subst Write_loop_step)
      (simp add: tar_Next_new at tar_Reader_source_def cong: prod.case_cong option.case_cong)
qed

lemma Write_loop_Entry:
  assumes "valid_entry lib (trimmed p (h, b))" "\<not> closed tw" "remaining tw = 0"
  shows "WriteTarballToTarWriter_loop lib (tar_NewReader (Entry h b s)) tw p =
     WriteTarballToTarWriter_loop lib (tar_NewReader s) (put tw (trimmed p (h, b))) p"
proof -
  let ?h = "fst (trimmed p (h, []))"
  have v: "allowedFormats lib ?h = None" "length b \<le> Size ?h"
    using assms(1) by (auto simp: valid_entry_def trimmed_def)
  show ?thesis
    using tar_WriteHeader_ok[OF assms(2,3) v(1)] io_Copy_ok[OF assms(2) v(2), of None]
    by (simp add: Write_loop_Entry_step ioutil_ReadAll_def trimmed_pair[of p h b])
qed

lemma Write_loop_Torn:
  assumes "allowedFormats lib (fst (trimmed p (h, []))) = None" "length b \<le> Size h"
    "\<not> closed tw" "remaining tw = 0" "err \<noteq> EOF"
  shows "fst (WriteTarballToTarWriter_loop lib (tar_NewReader (Torn h b err)) tw p) = Some err"
proof -
  let ?h = "fst (trimmed p (h, []))"
  have v: "length b \<le> Size ?h"
    using assms(2) by (auto simp: trimmed_def)
  show ?thesis
    using tar_WriteHeader_ok[OF assms(3,4,1)] io_Copy_ok[OF assms(3) v, of "Some err"] assms(5)
    by (simp add: Write_loop_Torn_step ioutil_ReadAll_def)
qed

lemma Write_loop_refused:
  assumes "\<not> closed tw" "remaining tw = 0"
    and "t = Entry h b s \<or> t = Torn h b e"
    and "allowedFormats lib (fst (trimmed p (h, []))) = Some err \<or>
      allowedFormats lib (fst (trimmed p (h, []))) = None \<and> Size h < length b \<and>
        err = ErrWriteTooLong"
  shows "fst (WriteTarballToTarWriter_loop lib (tar_NewReader t) tw p) = Some err"
proof -
  let ?h = "fst (trimmed p (h, []))"
  have sz: "Size ?h = Size h"
    by (simp add: trimmed_def)
  have step: "fst (WriteTarballToTarWriter_loop lib (tar_NewReader t) tw p) =
      (case tar_WriteHeader lib tw ?h of
         (Some err', tw') \<Rightarrow> Some err'
       | (None, tw') \<Rightarrow>
           (case io_Copy tw' (b, if t = Entry h b s then None else Some e) of
              (Some err', tw'') \<Rightarrow> Some err'
            | (None, tw'') \<Rightarrow>
                fst (if t = Entry h b s
                     then WriteTarballToTarWriter_loop lib (tar_NewReader s) tw'' p
                     else (if e = EOF then None else Some e, tw''))))"
    using assms(3)
    by (auto simp: Write_loop_Entry_step Write_loop_Torn_step split: prod.splits option.splits)
  from assms(4) show ?thesis
  proof (elim disjE conjE)
    assume "allowedFormats lib ?h = Some err"
    then have "tar_WriteHeader lib tw ?h = (Some err, tw)"
      using assms(1,2) by (simp add: tar_WriteHeader_def)
    then show ?thesis
      by (simp add: step)
  next
    assume a: "allowedFormats lib ?h = None" "Size h < length b" "err = ErrWriteTooLong"
    have w: "tar_WriteHeader lib tw ?h = (None, put tw (?h, []))"
      by (rule tar_WriteHeader_ok[OF assms(1,2) a(1)])
    let ?src = "(b, if t = Entry h b s then None else Some e)"
    have "fst (io_Copy (put tw (?h, [])) ?src) = Some ErrWriteTooLong"
      using a(2) assms(1) sz
      by (auto simp: io_Copy_def tar_Write_def put_def remaining_def Let_def min_def)
    then obtain tw' where "io_Copy (put tw (?h, [])) ?src = (Some ErrWriteTooLong, tw')"
      by (cases "io_Copy (put tw (?h, [])) ?src") auto
    then show ?thesis
      by (simp add: step w a(3))
  qed
qed

lemma Write_loop_entries:
  assumes "list_all (valid_entry lib) (map (trimmed p) es)" "\<not> closed tw" "remaining tw = 0"
  shows "WriteTarballToTarWriter_loop lib (tar_NewReader (followed_by es t)) tw p =
     WriteTarballToTarWriter_loop lib (tar_NewReader t)
       (fold (\<lambda>e tw. put tw e) (map (trimmed p) es) tw) p"
  using assms
proof (induction es arbitrary: tw)
  case Nil
  then show ?case by simp
next
  case (Cons e es)
  obtain h b where e: "e = (h, b)" by (cases e)
  from Cons.prems have v: "valid_entry lib (trimmed p (h, b))"
    by (simp add: e)
  have "remaining (put tw (trimmed p (h, b))) = 0"
    using v by (simp add: remaining_put valid_entry_def)
  with Cons show ?case
    by (simp add: e Write_loop_Entry[OF v] closed_put)
qed

lemma Write_loop_closed:
  "closed (snd (WriteTarballToTarWriter_loop lib r tw p)) = closed tw"
proof (induction lib r tw p rule: WriteTarballToTarWriter_loop.induct)
  case (1 lib r tw p)
  obtain x r' where n: "tar_Next r = (x, r')" by (cases "tar_Next r")
  show ?case
  proof (cases x)
    case (Inl err)
    then show ?thesis by (subst Write_loop_step) (simp add: n)
  next
    case (Inr h)
    let ?h = "fst (trimmed p (h, []))"
    have hh: "?h = (if p \<noteq> [] then h\<lparr>Name := strings_TrimPrefix (Name h) p\<rparr> else h)"
      by (simp add: trimmed_def)
    obtain e1 tw1 where w: "tar_WriteHeader lib tw ?h = (e1, tw1)"
      by (cases "tar_WriteHeader lib tw ?h")
    have c1: "closed tw1 = closed tw"
      using tar_WriteHeader_closed[of lib tw ?h] w by simp
    obtain e2 tw2 where c: "io_Copy tw1 (tar_Reader_source r') = (e2, tw2)"
      by (cases "io_Copy tw1 (tar_Reader_source r')")
    have c2: "closed tw2 = closed tw1"
      using io_Copy_closed[of tw1 "tar_Reader_source r'"] c by simp
    have ih: "e1 = None \<Longrightarrow> e2 = None \<Longrightarrow>
        closed (snd (WriteTarballToTarWriter_loop lib r' tw2 p)) = closed tw2"
      using "1.IH"[OF n[symmetric] Inr hh _ refl _ refl, of tw1 tw2] w c by simp
    show ?thesis
      by (subst Write_loop_step)
        (use n Inr w c c1 c2 ih in \<open>auto split: option.splits\<close>)
  qed
qed

lemma Write_loop_broken:
  assumes "t = Stop err \<or> t = Torn h b err" "err \<noteq> EOF"
  shows "\<exists>e. fst (WriteTarballToTarWriter_loop lib (tar_NewReader (followed_by es t)) tw p) = Some e"
proof (induction es arbitrary: tw)
  case Nil
  show ?case
    using assms
    by (auto simp: Write_loop_Stop Write_loop_Torn_step split: prod.splits option.splits)
next
  case (Cons e es)
  obtain h' b' where e: "e = (h', b')" by (cases e)
  show ?case
    by (auto simp: e Write_loop_Entry_step Cons.IH split: prod.splits option.splits)
qed

lemma trimmed_Nil: "trimmed [] e = e"
  by (simp add: trimmed_def)

lemma Combine_func_valid:
  assumes "valid_archive lib d es" "\<not> closed tw" "remaining tw = 0"
  shows "CombineTarballs_func lib d tw = (None, fold (\<lambda>e tw. put tw e) es tw)"
proof -
  have "list_all (valid_entry lib) (map (trimmed []) es)"
    using assms(1) by (simp add: valid_archive_def trimmed_Nil[abs_def])
  from Write_loop_entries[OF this assms(2,3), of "Stop EOF"] assms(1) show ?thesis
    by (simp add: CombineTarballs_func_def valid_archive_def Combine_loop_eq Write_loop_Stop
        trimmed_Nil[abs_def])
qed

lemma Combine_readers_valid:
  assumes "list_all2 (valid_archive lib) ds ess" "\<not> closed tw" "remaining tw = 0"
  shows "CombineTarballs_readers lib (ds @ rest) tw =
     CombineTarballs_readers lib rest (fold (\<lambda>e tw. put tw e) (concat ess) tw)"
  using assms
proof (induction ds ess arbitrary: tw rule: list_all2_induct)
  case Nil
  then show ?case by simp
next
  case (Cons d ds es ess)
  have "remaining (fold (\<lambda>e tw. put tw e) es tw) = 0"
    using Cons.hyps(1) Cons.prems(2) by (auto simp: valid_archive_def intro: remaining_fold_put)
  with Cons show ?case
    by (simp add: Combine_func_valid closed_fold_put)
qed

lemma Combine_func_closed: "closed (snd (CombineTarballs_func lib d tw)) = closed tw"
  by (simp add: CombineTarballs_func_def Combine_loop_eq Write_loop_closed split: sum.splits)

lemma Combine_func_broken:
  assumes "gzip_NewReader lib d = Inr (followed_by es t)" "t = Stop err \<or> t = Torn h b err"
    "err \<noteq> EOF"
  shows "\<exists>e. fst (CombineTarballs_func lib d tw) = Some e"
  using Write_loop_broken[OF assms(2,3), of lib es tw "[]"] assms(1)
  by (simp add: CombineTarballs_func_def Combine_loop_eq)

lemma Combine_func_decode_fails:
  assumes "decode_fails lib d"
  shows "\<exists>e. fst (CombineTarballs_func lib d tw) = Some e"
  using assms unfolding decode_fails_def
proof (elim disjE exE conjE)
  fix err assume "gzip_NewReader lib d = Inl err"
  then show ?thesis by (simp add: CombineTarballs_func_def)
next
  fix es err assume "err \<noteq> EOF" "gzip_NewReader lib d = Inr (followed_by es (Stop err))"
  then show ?thesis using Combine_func_broken[of lib d es "Stop err" err] by blast
next
  fix es h b err
  assume "err \<noteq> EOF" "gzip_NewReader lib d = Inr (followed_by es (Torn h b err))"
  then show ?thesis using Combine_func_broken[of lib d es "Torn h b err" err h b] by blast
qed

lemma Combine_readers_decode_fails:
  assumes "d \<in> set ds" "decode_fails lib d"
  shows "\<exists>e. fst (CombineTarballs_readers lib ds tw) = Some e"
  using assms(1)
proof (induction ds arbitrary: tw)
  case Nil
  then show ?case by simp
next
  case (Cons x ds)
  obtain e tw' where f: "CombineTarballs_func lib x tw = (e, tw')"
    by (cases "CombineTarballs_func lib x tw")
  show ?case
  proof (cases e)
    case (Some err)
    then show ?thesis by (simp add: f)
  next
    case None
    with f Combine_func_decode_fails[OF assms(2), of tw] have "x \<noteq> d"
      by auto
    with Cons.prems have "d \<in> set ds" by simp
    from Cons.IH[OF this, of tw'] show ?thesis by (simp add: f None)
  qed
qed

lemma CombineTarballs_all_or_nothing:
  "(\<exists>b. CombineTarballs lib ds = (Some b, None)) \<or> (\<exists>e. CombineTarballs lib ds = (None, Some e))"
  by (simp add: CombineTarballs_def split: prod.splits option.splits)

subsection \<open>ReadFileFromGzippedTarball on a stream\<close>

lemma Read_loop_at:
  assumes "fault r = None"
  shows "ReadFileFromGzippedTarball_loop r path =
    ReadFileFromGzippedTarball_loop (tar_NewReader (upcoming r)) path"
proof -
  obtain x r' where n: "tar_Next r = (x, r')" by (cases "tar_Next r")
  obtain y r'' where n': "tar_Next (tar_NewReader (upcoming r)) = (y, r'')"
    by (cases "tar_Next (tar_NewReader (upcoming r))")
  from tar_Next_at[OF assms] n n' have xy: "y = x" and rr: "\<And>h. x = Inr h \<Longrightarrow> r'' = r'"
    by auto
  show ?thesis
    by (subst ReadFileFromGzippedTarball_loop.simps,
        subst (2) ReadFileFromGzippedTarball_loop.simps)
      (use n n' xy rr in \<open>auto split: sum.splits\<close>)
qed

lemma Read_loop_Stop:
  "ReadFileFromGzippedTarball_loop (tar_NewReader (Stop err)) path =
     (None, Some (if err = EOF then Errorf (''no file named '' @ path @ '' in tarball'') else err))"
  by (subst ReadFileFromGzippedTarball_loop.simps) (simp add: tar_Next_new)

lemma Read_loop_Entry:
  "ReadFileFromGzippedTarball_loop (tar_NewReader (Entry h b s)) path =
     (if Name h = path then (Some b, None)
      else ReadFileFromGzippedTarball_loop (tar_NewReader s) path)"
proof -
  have at: "ReadFileFromGzippedTarball_loop \<lparr>curr = b, fault = None, upcoming = s\<rparr> path
     = ReadFileFromGzippedTarball_loop (tar_NewReader s) path"
    by (subst Read_loop_at) simp_all
  show ?thesis
    by (subst ReadFileFromGzippedTarball_loop.simps)
      (simp add: tar_Next_new at tar_Reader_source_def ioutil_ReadAll_def)
qed

lemma Read_loop_Torn:
  "ReadFileFromGzippedTarball_loop (tar_NewReader (Torn h b err)) path =
     (if Name h = path then (Some b, if err = EOF then None else Some err)
      else (None, Some (if err = EOF then Errorf (''no file named '' @ path @ '' in tarball'')
                        else err)))"
proof -
  have at: "ReadFileFromGzippedTarball_loop \<lparr>curr = b, fault = Some err, upcoming = Stop err\<rparr> path
     = (None, Some (if err = EOF then Errorf (''no file named '' @ path @ '' in tarball'')
                        else err))"
    by (subst ReadFileFromGzippedTarball_loop.simps) (simp add: tar_Next_torn)
  show ?thesis
    by (subst ReadFileFromGzippedTarball_loop.simps)
      (simp add: tar_Next_new at tar_Reader_source_def ioutil_ReadAll_def)
qed

lemma Read_loop_skip:
  "\<forall>e \<in> set es. Name (fst e) \<noteq> path \<Longrightarrow>
     ReadFileFromGzippedTarball_loop (tar_NewReader (followed_by es t)) path =
     ReadFileFromGzippedTarball_loop (tar_NewReader t) path"
  by (induction es) (auto simp: Read_loop_Entry)

lemma Read_loop_archive:
  "ReadFileFromGzippedTarball_loop (tar_NewReader (followed_by es (Stop EOF))) path =
     (case find (\<lambda>e. Name (fst e) = path) es of
        None \<Rightarrow> (None, Some (Errorf (''no file named '' @ path @ '' in tarball'')))
      | Some e \<Rightarrow> (Some (snd e), None))"
  by (induction es) (auto simp: Read_loop_Entry Read_loop_Stop)

subsection \<open>GetFilePathsWithRegex on a stream\<close>

lemma Get_loop_at:
  assumes "fault r = None"
  shows "GetFilePathsWithRegex_loop rc regex r files =
    GetFilePathsWithRegex_loop rc regex (tar_NewReader (upcoming r)) files"
proof -
  obtain x r' where n: "tar_Next r = (x, r')" by (cases "tar_Next r")
  obtain y r'' where n': "tar_Next (tar_NewReader (upcoming r)) = (y, r'')"
    by (cases "tar_Next (tar_NewReader (upcoming r))")
  from tar_Next_at[OF assms] n n' have xy: "y = x" and rr: "\<And>h. x = Inr h \<Longrightarrow> r'' = r'"
    by auto
  show ?thesis
    by (subst GetFilePathsWithRegex_loop.simps, subst (2) GetFilePathsWithRegex_loop.simps)
      (use n n' xy rr in \<open>auto split: sum.splits\<close>)
qed

lemma Get_loop_Stop:
  "GetFilePathsWithRegex_loop rc regex (tar_NewReader (Stop err)) files =
     Return (files, if err = EOF then None else Some err)"
  by (subst GetFilePathsWithRegex_loop.simps) (simp add: tar_Next_new)

lemma Get_loop_Entry:
  "GetFilePathsWithRegex_loop rc regex (tar_NewReader (Entry h b s)) files =
     (case rc regex of
        Inl err \<Rightarrow> Panic err
      | Inr r \<Rightarrow>
          GetFilePathsWithRegex_loop rc regex (tar_NewReader s)
            (if r (Name h) then files @ [Name h] else files))"
proof -
  have at: "\<And>files. GetFilePathsWithRegex_loop rc regex \<lparr>curr = b, fault = None, upcoming = s\<rparr> files
     = GetFilePathsWithRegex_loop rc regex (tar_NewReader s) files"
    by (subst Get_loop_at) simp_all
  show ?thesis
    by (subst GetFilePathsWithRegex_loop.simps)
      (simp add: tar_Next_new at cong: sum.case_cong)
qed

lemma Get_loop_Torn:
  "GetFilePathsWithRegex_loop rc regex (tar_NewReader (Torn h b err)) files =
     (case rc regex of
        Inl err' \<Rightarrow> Panic err'
      | Inr r \<Rightarrow>
          Return (if r (Name h) then files @ [Name h] else files,
                  if err = EOF then None else Some err))"
proof -
  have at: "\<And>files. GetFilePathsWithRegex_loop rc regex \<lparr>curr = b, fault = Some err, upcoming = Stop err\<rparr> files
     = Return (files, if err = EOF then None else Some err)"
    by (subst GetFilePathsWithRegex_loop.simps) (simp add: tar_Next_torn)
  show ?thesis
    by (subst GetFilePathsWithRegex_loop.simps)
      (simp add: tar_Next_new at cong: sum.case_cong)
qed

lemma Get_loop_entries:
  "rc regex = Inr r \<Longrightarrow>
     GetFilePathsWithRegex_loop rc regex (tar_NewReader (followed_by es t)) files =
     GetFilePathsWithRegex_loop rc regex (tar_NewReader t)
       (files @ filter r (map (\<lambda>e. Name (fst e)) es))"
  by (induction es arbitrary: files) (auto simp: Get_loop_Entry)

subsection \<open>The miniature format reads back what it writes\<close>

lemma mini_unat: "n < 256 \<Longrightarrow> unat (of_nat n :: byte) = n"
  by (simp add: unat_of_nat)

lemma mini_uint: "0 \<le> i \<Longrightarrow> i < 256 \<Longrightarrow> uint (of_int i :: byte) = i"
  by (simp add: uint_word_of_int)

lemma mini_char: "char_of (unat (of_nat (of_char c) :: byte)) = c"
proof -
  have "of_char c < (256 :: nat)"
    by simp
  then show ?thesis
    by (simp add: mini_unat)
qed

lemma mini_untar_entry:
  assumes "valid_entry mini (h, b)"
  shows "mini_untar (Suc k) (mini_entry (h, b) @ rest) = Entry h b (mini_untar k rest)"
proof -
  from assms have a: "length (Name h) < 256" "0 \<le> Mode h" "Mode h < 256" "0 \<le> ModTime h"
    "ModTime h < 256" "Size h < 256" "Size h = length b"
    by (auto simp: valid_entry_def mini_def mini_allowedFormats_def split: if_splits)
  define nm :: "byte list" where "nm = map (\<lambda>c. of_nat (of_char c)) (Name h)"
  define r where "r = nm @ [of_int (Mode h), of_int (ModTime h), of_nat (Size h)] @ b @ rest"
  have len: "length nm = length (Name h)"
    by (simp add: nm_def)
  have e: "mini_entry (h, b) @ rest = 1 # of_nat (length (Name h)) # r"
    by (simp add: mini_entry_def r_def nm_def)
  have nl: "unat (of_nat (length (Name h)) :: byte) = length nm"
    using a(1) by (simp add: mini_unat len)
  have name: "map (\<lambda>w. char_of (unat w)) (take (length nm) r) = Name h"
    by (simp add: r_def nm_def mini_char comp_def)
  have meta: "take 3 (drop (length nm) r) = [of_int (Mode h), of_int (ModTime h), of_nat (Size h)]"
    by (simp add: r_def)
  have body: "drop (length nm + 3) r = b @ rest"
    by (simp add: r_def)
  have long: "\<not> length r < length nm + 3"
    by (simp add: r_def)
  have sz: "unat (of_nat (length b) :: byte) = length b"
    using a(6,7) by (simp add: mini_unat)
  have hd: "\<lparr>Name = Name h, Size = length b,
      Mode = uint (of_int (Mode h) :: byte), ModTime = uint (of_int (ModTime h) :: byte)\<rparr> = h"
    using a by (simp add: mini_uint)
  show ?thesis
    unfolding e
    by (simp add: nl name meta body long Let_def a(7) sz hd del: of_nat_eq_0_iff)
qed

lemma mini_untar_entries:
  "list_all (valid_entry mini) es \<Longrightarrow> length es < k \<Longrightarrow>
     mini_untar k (concat (map mini_entry es) @ [0]) = followed_by es (Stop EOF)"
proof (induction es arbitrary: k)
  case Nil
  then show ?case by (cases k) simp_all
next
  case (Cons e es)
  obtain h b where e: "e = (h, b)" by (cases e)
  from Cons.prems obtain k' where k: "k = Suc k'" "length es < k'"
    by (cases k) auto
  from Cons.prems have v: "valid_entry mini (h, b)" "list_all (valid_entry mini) es"
    by (simp_all add: e)
  show ?case
    using mini_untar_entry[OF v(1), of k' "concat (map mini_entry es) @ [0]"]
      Cons.IH[OF v(2) k(2)]
    by (simp add: e k(1))
qed

lemma length_mini_entries: "length es \<le> length (concat (map mini_entry es))"
  by (induction es) (auto simp: mini_entry_def)

lemma mini_reads_back: "reads_back mini"
  unfolding reads_back_def
proof (intro allI impI)
  fix es assume v: "list_all (valid_entry mini) es"
  have "length es < length (concat (map mini_entry es) @ [0])"
    using length_mini_entries[of es] by simp
  from mini_untar_entries[OF v this] show
    "gzip_NewReader mini (gzip_tar mini es True) = Inr (followed_by es (Stop EOF))"
    by (simp add: mini_def mini_gzip_tar_def mini_gzip_NewReader_def)
qed

lemma Get_open:
  "lookup fs tarFilePath = Some (File data m t) \<Longrightarrow>
     GetFilePathsWithRegex lib rc fs tarFilePath regex =
       (case gzip_NewReader lib data of
          Inl err \<Rightarrow> Return ([], Some err)
        | Inr s \<Rightarrow> GetFilePathsWithRegex_loop rc regex (tar_NewReader s) [])"
  by (simp add: GetFilePathsWithRegex_def os_Open_def gzip_NewReader_file_def)

subsection \<open>Paths\<close>

lemma elems_Nil [simp]: "elems [] = []"
  by (simp add: elems.simps)

lemma takeWhile_no_slash:
  "CHR ''/'' \<notin> set a \<Longrightarrow>
     takeWhile (\<lambda>c. c \<noteq> CHR ''/'') (a @ r) = a @ takeWhile (\<lambda>c. c \<noteq> CHR ''/'') r"
  by (induction a) auto

lemma dropWhile_no_slash:
  "CHR ''/'' \<notin> set a \<Longrightarrow>
     dropWhile (\<lambda>c. c \<noteq> CHR ''/'') (a @ r) = dropWhile (\<lambda>c. c \<noteq> CHR ''/'') r"
  by (induction a) auto

lemma elems_no_slash: "s \<noteq> [] \<Longrightarrow> CHR ''/'' \<notin> set s \<Longrightarrow> elems s = [s]"
proof -
  assume a: "s \<noteq> []" "CHR ''/'' \<notin> set s"
  then have "takeWhile (\<lambda>c. c \<noteq> CHR ''/'') s = s" "dropWhile (\<lambda>c. c \<noteq> CHR ''/'') s = []"
    using takeWhile_no_slash[of s "[]"] dropWhile_no_slash[of s "[]"] by simp_all
  with a(1) show ?thesis
    by (subst elems.simps) (simp only: if_False list.case)
qed

lemma elems_Cons_slash: "elems (CHR ''/'' # r) = [] # elems r"
  by (subst elems.simps) simp

lemma elems_first:
  "CHR ''/'' \<notin> set a \<Longrightarrow> elems (a @ CHR ''/'' # r) = a # elems r"
  by (subst elems.simps) (simp add: takeWhile_no_slash dropWhile_no_slash)

lemma split_first_slash:
  "CHR ''/'' \<in> set s \<Longrightarrow> \<exists>a r. s = a @ CHR ''/'' # r \<and> CHR ''/'' \<notin> set a"
  by (metis split_list_first)

lemma elems_slash_append:
  "elems (d @ CHR ''/'' # r) =
     elems d @ (if d = [] \<or> last d = CHR ''/'' then [[]] else []) @ elems r"
proof (induction d rule: length_induct)
  case (1 d)
  show ?case
  proof (cases "CHR ''/'' \<in> set d")
    case False
    then have "d \<noteq> [] \<Longrightarrow> last d \<noteq> CHR ''/''"
      using last_in_set[of d] by metis
    with False show ?thesis
      by (cases "d = []") (auto simp: elems_first elems_no_slash elems_Cons_slash)
  next
    case True
    then obtain a d' where d: "d = a @ CHR ''/'' # d'" "CHR ''/'' \<notin> set a"
      using split_first_slash by blast
    have "length d' < length d"
      by (simp add: d)
    with 1 have ih: "elems (d' @ CHR ''/'' # r) =
        elems d' @ (if d' = [] \<or> last d' = CHR ''/'' then [[]] else []) @ elems r"
      by blast
    show ?thesis
    proof (cases "d' = []")
      case True
      then show ?thesis
        using d by (simp add: elems_first elems_Cons_slash)
    next
      case False
      then show ?thesis
        using d ih by (simp add: elems_first)
    qed
  qed
qed

lemma common_prefix_append: "common_prefix xs (xs @ ys) = length xs"
  by (induction xs) auto

lemma join_elems_snoc:
  "join_elems (xs @ [n]) = (if xs = [] then n else join_elems xs @ CHR ''/'' # n)"
  by (induction xs rule: join_elems.induct) auto

lemma Join_append: "filepath_Join dir n = filepath_Join dir [] @ n"
  by (simp add: filepath_Join_def)

lemma Join_inject: "filepath_Join dir n = filepath_Join dir n' \<longleftrightarrow> n = n'"
  by (simp add: filepath_Join_def)

lemma child_name_Join: "is_name n \<Longrightarrow> child_name dir (filepath_Join dir n) = Some n"
  by (simp add: child_name_def Join_append[of dir n])

lemma child_name_Some: "child_name dir k = Some n \<Longrightarrow> k = filepath_Join dir n \<and> is_name n"
  by (auto simp: child_name_def Let_def Join_append[of dir n] prefix_def split: if_splits)

lemma Dir_no_slash: "CHR ''/'' \<notin> set p \<Longrightarrow> filepath_Dir p = ''.''"
  using dropWhile_no_slash[of "rev p" "[]"] by (simp add: filepath_Dir_def)

lemma Dir_last_slash:
  "CHR ''/'' \<notin> set q \<Longrightarrow>
     filepath_Dir (d @ CHR ''/'' # q) = (if d = [] then ''/'' else d)"
  using dropWhile_no_slash[of "rev q" "CHR ''/'' # rev d"]
  by (simp add: filepath_Dir_def Let_def)

lemma split_last_slash:
  "CHR ''/'' \<in> set s \<Longrightarrow> \<exists>d q. s = d @ CHR ''/'' # q \<and> CHR ''/'' \<notin> set q"
  by (metis split_list_last)

lemma Rel_prefix:
  assumes "targ \<noteq> base"
    and "base' = (if base = ''.'' then [] else base)"
    and "(base' \<noteq> [] \<and> hd base' = CHR ''/'') = (targ \<noteq> [] \<and> hd targ = CHR ''/'')"
    and "elems targ = elems base' @ t"
  shows "filepath_Rel base targ = Inr (join_elems t)"
  using assms(1,3,4) unfolding assms(2)
  by (simp add: filepath_Rel_def Let_def common_prefix_append)

lemma is_name_elems: "is_name n \<Longrightarrow> elems n = [n]"
  by (simp add: is_name_def elems_no_slash)

lemma hd_no_slash: "s \<noteq> [] \<Longrightarrow> CHR ''/'' \<notin> set s \<Longrightarrow> hd s \<noteq> CHR ''/''"
  by (cases s) auto

text \<open>The name that \<^verbatim>\<open>addFileToTarWriter\<close> gives to an entry of the directory \<open>p\<close>.\<close>

lemma Rel_Dir_Join:
  assumes "p \<noteq> []"
  shows "\<exists>stem. \<forall>n. is_name n \<longrightarrow>
     filepath_Rel (filepath_Dir p) (filepath_Join p n) = Inr (join_elems (stem @ [n]))"
proof -
  consider (dot) "p = ''.''" | (root) "p = ''/''"
    | (plain) "p \<noteq> ''.''" "p \<noteq> ''/''" "CHR ''/'' \<notin> set p"
    | (deep) d q where "p \<noteq> ''.''" "p \<noteq> ''/''" "p = d @ CHR ''/'' # q" "CHR ''/'' \<notin> set q"
    using split_last_slash[of p] by blast
  then show ?thesis
  proof cases
    case dot
    have "filepath_Rel (filepath_Dir p) (filepath_Join p n) = Inr (join_elems ([] @ [n]))"
      if "is_name n" for n
    proof (rule Rel_prefix[where base' = "[]"])
      show "filepath_Join p n \<noteq> filepath_Dir p"
        using that by (simp add: dot Dir_no_slash filepath_Join_def is_name_def)
      show "[] = (if filepath_Dir p = ''.'' then [] else filepath_Dir p)"
        by (simp add: dot Dir_no_slash)
      show "(([] :: string) \<noteq> [] \<and> hd [] = CHR ''/'') =
          (filepath_Join p n \<noteq> [] \<and> hd (filepath_Join p n) = CHR ''/'')"
        using that hd_no_slash[of n] by (auto simp: dot filepath_Join_def is_name_def)
      show "elems (filepath_Join p n) = elems [] @ [] @ [n]"
        using that by (simp add: dot filepath_Join_def is_name_elems)
    qed
    then show ?thesis by blast
  next
    case root
    have d: "filepath_Dir p = ''/''" "filepath_Dir ''/'' = ''/''"
      using Dir_last_slash[of "[]" "[]"] by (simp_all add: root)
    have "filepath_Rel (filepath_Dir p) (filepath_Join p n) = Inr (join_elems ([] @ [n]))"
      if "is_name n" for n
    proof (rule Rel_prefix[where base' = "''/''"])
      show "filepath_Join p n \<noteq> filepath_Dir p"
        using that by (simp add: d root filepath_Join_def is_name_def)
      show "''/'' = (if filepath_Dir p = ''.'' then [] else filepath_Dir p)"
        by (simp add: d)
      show "(''/'' \<noteq> [] \<and> hd ''/'' = CHR ''/'') =
          (filepath_Join p n \<noteq> [] \<and> hd (filepath_Join p n) = CHR ''/'')"
        by (simp add: root filepath_Join_def)
      show "elems (filepath_Join p n) = elems ''/'' @ [] @ [n]"
        using that by (simp add: root filepath_Join_def elems_Cons_slash is_name_elems)
    qed
    then show ?thesis by blast
  next
    case plain
    define E where "E = elems p @ (if last p = CHR ''/'' then [[]] else [])"
    have j: "\<And>n. filepath_Join p n = p @ CHR ''/'' # n"
      using plain by (simp add: filepath_Join_def)
    have "filepath_Rel (filepath_Dir p) (filepath_Join p n) = Inr (join_elems (E @ [n]))"
      if "is_name n" for n
    proof (rule Rel_prefix[where base' = "[]"])
      have "length (p @ CHR ''/'' # n) \<noteq> length ''.''"
        using assms by (cases p) simp_all
      then have "p @ CHR ''/'' # n \<noteq> ''.''"
        by metis
      then show "filepath_Join p n \<noteq> filepath_Dir p"
        by (simp add: j Dir_no_slash plain)
      show "[] = (if filepath_Dir p = ''.'' then [] else filepath_Dir p)"
        by (simp add: Dir_no_slash plain)
      show "(([] :: string) \<noteq> [] \<and> hd [] = CHR ''/'') =
          (filepath_Join p n \<noteq> [] \<and> hd (filepath_Join p n) = CHR ''/'')"
        using hd_no_slash[OF assms plain(3)] by (simp add: j assms)
      show "elems (filepath_Join p n) = elems [] @ E @ [n]"
        using that assms by (simp add: j elems_slash_append is_name_elems E_def)
    qed
    then show ?thesis by blast
  next
    case deep
    define X where "X = (if last p = CHR ''/'' then [[]] else [] :: string list)"
    define Y where "Y = (if d = [] \<or> last d = CHR ''/'' then [[]] else [] :: string list)"
    have j: "\<And>n. filepath_Join p n = p @ CHR ''/'' # n"
      using deep by (simp add: filepath_Join_def)
    have ep: "elems p = elems d @ Y @ elems q"
      by (simp add: deep(3) elems_slash_append Y_def)
    have et: "\<And>n. is_name n \<Longrightarrow> elems (filepath_Join p n) = elems d @ Y @ elems q @ X @ [n]"
      using assms by (simp add: j elems_slash_append[of p] is_name_elems X_def ep)
    have dir: "filepath_Dir p = (if d = [] then ''/'' else d)"
      using Dir_last_slash[OF deep(4), of d] by (simp add: deep(3))
    show ?thesis
    proof (cases "d = [] \<or> d = ''.''")
      case True
      define base' where "base' = (if d = [] then ''/'' else [])"
      define stem where "stem = (if d = [] then elems q @ X else elems d @ Y @ elems q @ X)"
      have "filepath_Rel (filepath_Dir p) (filepath_Join p n) = Inr (join_elems (stem @ [n]))"
        if "is_name n" for n
      proof (rule Rel_prefix[where base' = base'])
        show "filepath_Join p n \<noteq> filepath_Dir p"
          unfolding j dir using True by (auto simp: deep(3))
        show "base' = (if filepath_Dir p = ''.'' then [] else filepath_Dir p)"
          using True by (auto simp: dir base'_def)
        show "(base' \<noteq> [] \<and> hd base' = CHR ''/'') =
            (filepath_Join p n \<noteq> [] \<and> hd (filepath_Join p n) = CHR ''/'')"
          unfolding j using True by (auto simp: base'_def deep(3))
        show "elems (filepath_Join p n) = elems base' @ stem @ [n]"
          using True et[OF that]
          by (auto simp: base'_def stem_def Y_def elems_Cons_slash[of "[]", simplified])
      qed
      then show ?thesis by blast
    next
      case False
      have "filepath_Rel (filepath_Dir p) (filepath_Join p n) =
          Inr (join_elems ((Y @ elems q @ X) @ [n]))"
        if "is_name n" for n
      proof (rule Rel_prefix[where base' = d])
        show "filepath_Join p n \<noteq> filepath_Dir p"
          unfolding j dir using False by (simp add: deep(3))
        show "d = (if filepath_Dir p = ''.'' then [] else filepath_Dir p)"
          using False by (simp add: dir)
        show "(d \<noteq> [] \<and> hd d = CHR ''/'') =
            (filepath_Join p n \<noteq> [] \<and> hd (filepath_Join p n) = CHR ''/'')"
          unfolding j using False by (simp add: deep(3))
        show "elems (filepath_Join p n) = elems d @ (Y @ elems q @ X) @ [n]"
          using et[OF that] by simp
      qed
      then show ?thesis by blast
    qed
  qed
qed

lemma Rel_Dir_Join_inject:
  assumes "p \<noteq> []" "is_name n" "is_name n'"
    and "filepath_Rel (filepath_Dir p) (filepath_Join p n) = Inr name"
    and "filepath_Rel (filepath_Dir p) (filepath_Join p n') = Inr name"
  shows "n = n'"
proof -
  from Rel_Dir_Join[OF assms(1)] obtain stem where
    "\<forall>n. is_name n \<longrightarrow>
       filepath_Rel (filepath_Dir p) (filepath_Join p n) = Inr (join_elems (stem @ [n]))"
    by blast
  with assms(2-5) have "join_elems (stem @ [n]) = join_elems (stem @ [n'])"
    by simp
  then show ?thesis
    by (simp add: join_elems_snoc split: if_splits)
qed

subsection \<open>The file system\<close>

lemma map_of_filter_key:
  "map_of (filter (\<lambda>kv. fst kv \<noteq> p) xs) q = (if q = p then None else map_of xs q)"
  by (induction xs) auto

lemma lookup_store: "lookup (store fs p n) q = (if q = p then Some n else lookup fs q)"
  by (simp add: lookup_def store_def map_of_filter_key)

lemma lookup_erase: "lookup (erase fs p) q = (if q = p then None else lookup fs q)"
  by (simp add: lookup_def erase_def map_of_filter_key)

lemma lookup_os_Remove:
  "lookup (snd (os_Remove fs p)) q = lookup fs q \<or>
   (q = p \<and> lookup (snd (os_Remove fs p)) q = None)"
  by (auto simp: os_Remove_def lookup_erase split: option.splits)

lemma lookup_os_Remove_other: "q \<noteq> p \<Longrightarrow> lookup (snd (os_Remove fs p)) q = lookup fs q"
  by (auto simp: os_Remove_def lookup_erase split: option.splits)

lemma os_Remove_deletes:
  "lookup fs p = Some (File c m t) \<Longrightarrow> p \<notin> set (undeletable fs) \<Longrightarrow>
     lookup (snd (os_Remove fs p)) p = None"
  by (simp add: os_Remove_def lookup_erase)



lemma os_Mkdir_keeps:
  "lookup fs q = Some n \<Longrightarrow> lookup (snd (os_Mkdir fs p perm)) q = Some n"
  by (auto simp: os_Mkdir_def lookup_store split: option.splits)

lemma undeletable_os_Mkdir: "undeletable (snd (os_Mkdir fs p perm)) = undeletable fs"
  by (simp add: os_Mkdir_def store_def split: option.splits)

lemma os_MkdirAll_keeps:
  "lookup fs q = Some n \<Longrightarrow> lookup (snd (os_MkdirAll fs p perm)) q = Some n"
proof (induction fs p perm rule: os_MkdirAll.induct)
  case (1 fs p perm)
  show ?case
  proof (cases "lookup fs p")
    case (Some x)
    then show ?thesis
      using "1.prems" by (subst os_MkdirAll.simps) (simp split: node.splits)
  next
    case None
    show ?thesis
    proof (cases "parent_of p")
      case pn: None
      then show ?thesis
        using None "1.prems" by (subst os_MkdirAll.simps) (simp add: os_Mkdir_keeps)
    next
      case (Some parent)
      obtain e fs' where r: "os_MkdirAll fs parent perm = (e, fs')"
        by (cases "os_MkdirAll fs parent perm")
      from "1.IH"[OF None Some "1.prems"] r have "lookup fs' q = Some n"
        by simp
      then show ?thesis
        using None Some r
        by (subst os_MkdirAll.simps) (simp add: os_Mkdir_keeps split: option.splits)
    qed
  qed
qed

lemma undeletable_os_MkdirAll: "undeletable (snd (os_MkdirAll fs p perm)) = undeletable fs"
proof (induction fs p perm rule: os_MkdirAll.induct)
  case (1 fs p perm)
  show ?case
  proof (cases "lookup fs p")
    case (Some x)
    then show ?thesis
      by (subst os_MkdirAll.simps) (simp split: node.splits)
  next
    case None
    show ?thesis
    proof (cases "parent_of p")
      case pn: None
      then show ?thesis
        using None by (subst os_MkdirAll.simps) (simp add: undeletable_os_Mkdir)
    next
      case (Some parent)
      obtain e fs' where r: "os_MkdirAll fs parent perm = (e, fs')"
        by (cases "os_MkdirAll fs parent perm")
      from "1.IH"[OF None Some] r have "undeletable fs' = undeletable fs"
        by simp
      then show ?thesis
        using None Some r undeletable_os_Mkdir[of fs' p perm]
        by (subst os_MkdirAll.simps) (simp split: option.splits)
    qed
  qed
qed

lemma undeletable_store: "undeletable (store fs p n) = undeletable fs"
  by (simp add: store_def)

lemma os_Create_result:
  "os_Create fs p = Inr fs' \<Longrightarrow>
     (\<exists>m t. lookup fs' p = Some (File [] m t)) \<and> (\<forall>q. q \<noteq> p \<longrightarrow> lookup fs' q = lookup fs q) \<and>
     undeletable fs' = undeletable fs \<and> (\<forall>n m t. lookup fs p \<noteq> Some (Dir n m t))"
  by (auto simp: os_Create_def lookup_store undeletable_store split: option.splits node.splits)

lemma lookup_close_file:
  "lookup (close_file fs p b) q =
     (if q = p then (case lookup fs p of Some (File old m t) \<Rightarrow> Some (File b m t) | x \<Rightarrow> x)
      else lookup fs q)"
  by (auto simp: close_file_def lookup_store split: option.splits node.splits)

lemma set_map_filter: "set (List.map_filter f xs) = {y. \<exists>x \<in> set xs. f x = Some y}"
  by (induction xs) (auto split: option.splits)

lemma set_Readdirnames:
  "set (Readdirnames fs dir) = {n. \<exists>k \<in> fst ` set (nodes fs). child_name dir k = Some n}"
proof -
  have "set (Readdirnames fs dir) = set (List.map_filter (child_name dir) (map fst (nodes fs)))"
    by (simp add: Readdirnames_def)
  then show ?thesis
    by (auto simp: set_map_filter)
qed

lemma distinct_Readdirnames: "distinct (Readdirnames fs dir)"
  by (simp add: Readdirnames_def)

lemma lookup_in_nodes: "lookup fs k = Some n \<Longrightarrow> k \<in> fst ` set (nodes fs)"
  by (auto simp: lookup_def dest: map_of_SomeD intro: rev_image_eqI)

subsection \<open>Listing a directory\<close>

lemma scan_plain: "\<not> hasMeta p \<Longrightarrow> scan False (p @ CHR ''*'' # r) = length p"
  by (induction p) (auto simp: hasMeta_def)

lemma matchChunk_loop_failed:
  "\<not> hasMeta c \<Longrightarrow> matchChunk_loop c s True = Inr ([], False)"
proof (induction c arbitrary: s)
  case Nil
  show ?case by (subst matchChunk_loop.simps) simp
next
  case (Cons a c)
  from Cons.prems have "\<not> hasMeta c" "a \<noteq> CHR ''[''" "a \<noteq> CHR ''?''" "a \<noteq> CHR 0x5C"
    by (auto simp: hasMeta_def)
  with Cons.IH show ?case
    by (subst matchChunk_loop.simps) (simp add: Let_def)
qed

lemma matchChunk_plain_empty:
  assumes "c \<noteq> []" "\<not> hasMeta c"
  shows "matchChunk c [] = Inr ([], False)"
proof -
  obtain a c' where c: "c = a # c'" using assms(1) by (cases c) auto
  with assms(2) have "\<not> hasMeta c'" "a \<noteq> CHR ''[''" "a \<noteq> CHR ''?''" "a \<noteq> CHR 0x5C"
    by (auto simp: hasMeta_def)
  then show ?thesis
    unfolding matchChunk_def c
    by (subst matchChunk_loop.simps) (simp add: Let_def matchChunk_loop_failed)
qed

lemma Match_star: "filepath_Match ''*'' n = Inr (CHR ''/'' \<notin> set n)"
  by (subst filepath_Match.simps) (simp add: scanChunk_def)

lemma Match_children_pattern:
  assumes "p \<noteq> []" "\<not> hasMeta p"
  shows "filepath_Match (p @ ''/*'') [] = Inr False"
proof -
  have m: "\<not> hasMeta (p @ ''/'')"
    using assms(2) by (auto simp: hasMeta_def)
  have h: "hd (p @ ''/*'') \<noteq> CHR ''*''"
    using assms by (cases p) (auto simp: hasMeta_def)
  then have d: "dropWhile (\<lambda>c. c = CHR ''*'') (p @ ''/*'') = p @ ''/*''"
    using assms(1) by (cases p) auto
  have s: "scan False (p @ ''/*'') = length p + 1"
    using scan_plain[OF m, of "[]"] by simp
  have sc: "scanChunk (p @ ''/*'') = (False, p @ ''/'', ''*'')"
    using h by (simp add: scanChunk_def d s Let_def)
  have e: "Match_rest [] = Inr False"
    by (subst Match_rest.simps) simp
  have mc: "matchChunk [] [] = Inr ([], True)"
    unfolding matchChunk_def by (subst matchChunk_loop.simps) simp
  have r: "Match_rest ''*'' = Inr False"
    by (subst Match_rest.simps) (simp add: scanChunk_def mc e)
  show ?thesis
    by (subst filepath_Match.simps) (simp add: sc matchChunk_plain_empty[OF _ m] r)
qed

lemma Split_children_pattern: "filepath_Split (p @ ''/*'') = (p @ ''/'', ''*'')"
  by (simp add: filepath_Split_def Let_def)


lemma glob_names_star:
  "list_all is_name names \<Longrightarrow>
     glob_names dir ''*'' names acc = Inr (acc @ map (filepath_Join dir) names)"
  by (induction names arbitrary: acc) (auto simp: Match_star is_name_def)

lemma is_name_Readdirnames: "list_all is_name (Readdirnames fs dir)"
  unfolding list_all_iff set_Readdirnames using child_name_Some by blast

lemma Glob_children:
  assumes "p \<noteq> []" "\<not> hasMeta p" "lookup fs p = Some (Dir sz m t)"
  shows "filepath_Glob fs (p @ ''/*'') = Inr (map (filepath_Join p) (Readdirnames fs p))"
proof -
  have c: "cleanGlobPath (p @ ''/'') = p"
    using assms(1) by (simp add: cleanGlobPath_def)
  have h: "hasMeta (p @ ''/*'')"
    by (simp add: hasMeta_def)
  show ?thesis
    unfolding filepath_Glob_def
    by (subst globWithLimit.simps)
      (simp add: Match_children_pattern[OF assms(1,2)] h Split_children_pattern c assms(2,3)
        glob_def os_Stat_def glob_names_star is_name_Readdirnames)
qed








subsection \<open>Adding files to the tar writer\<close>


lemma tar_WriteHeader_None:
  "tar_WriteHeader lib tw h = (None, tw') \<Longrightarrow>
     \<not> closed tw \<and> remaining tw = 0 \<and> allowedFormats lib h = None \<and> tw' = put tw (h, [])"
  by (auto simp: tar_WriteHeader_def put_def split: if_splits option.splits)

lemma addFile_success:
  assumes "addFileToTarWriter lib fs q dir tw = (None, tw')"
  shows "\<exists>c m t name. lookup fs q = Some (File c m t) \<and> filepath_Rel dir q = Inr name \<and>
     allowedFormats lib \<lparr>Name = name, Size = length c, Mode = m, ModTime = t\<rparr> = None \<and>
     tw' = put tw (\<lparr>Name = name, Size = length c, Mode = m, ModTime = t\<rparr>, c) \<and>
     \<not> closed tw \<and> remaining tw = 0"
proof -
  from assms obtain node where l: "lookup fs q = Some node"
    by (auto simp: addFileToTarWriter_def os_Open_def split: option.splits)
  from assms l obtain name where r: "filepath_Rel dir q = Inr name"
    by (auto simp: addFileToTarWriter_def os_Open_def os_File_Stat_def split: sum.splits)
  define h where "h = \<lparr>Name = name, Size = FileInfo_Size node, Mode = FileInfo_Mode node,
    ModTime = FileInfo_ModTime node\<rparr>"
  from assms l r obtain tw1 where w: "tar_WriteHeader lib tw h = (None, tw1)"
    and c: "io_Copy tw1 (os_File_source (q, node)) = (None, tw')"
    by (auto simp: addFileToTarWriter_def os_Open_def os_File_Stat_def h_def Let_def
        split: prod.splits option.splits)
  note w' = tar_WriteHeader_None[OF w]
  show ?thesis
  proof (cases node)
    case (Dir n m t)
    with c show ?thesis
      by (simp add: io_Copy_def ioutil_ReadAll_def)
  next
    case (File b m t)
    have "io_Copy (put tw (h, [])) (b, None) = (None, put tw (h, b))"
      using io_Copy_ok[of tw b h None] w' by (simp add: h_def File ioutil_ReadAll_def)
    with c w' have "tw' = put tw (h, b)"
      by (simp add: File)
    with l r w' show ?thesis
      by (simp add: File h_def)
  qed
qed

lemma finished_io_Copy: "finished (snd (io_Copy tw src)) = finished tw"
  by (simp add: io_Copy_def tar_Write_def Let_def split: prod.splits option.splits)

lemma written_prefix_finished: "prefix (finished tw) (written tw)"
  by (simp add: written_def)

lemma tar_WriteHeader_Some:
  "tar_WriteHeader lib tw h = (Some e, tw') \<Longrightarrow> tw' = tw"
  by (auto simp: tar_WriteHeader_def split: if_splits option.splits)

lemma addFile_written:
  "prefix (written tw) (written (snd (addFileToTarWriter lib fs q dir tw)))"
proof (cases "os_Open fs q")
  case (Inl e)
  then show ?thesis by (simp add: addFileToTarWriter_def)
next
  case (Inr f)
  show ?thesis
  proof (cases "filepath_Rel dir q")
    case (Inl e)
    then show ?thesis by (simp add: addFileToTarWriter_def Inr os_File_Stat_def)
  next
    case name: (Inr name)
    define h where "h = \<lparr>Name = name, Size = FileInfo_Size (snd f),
      Mode = FileInfo_Mode (snd f), ModTime = FileInfo_ModTime (snd f)\<rparr>"
    obtain e tw1 where w: "tar_WriteHeader lib tw h = (e, tw1)"
      by (cases "tar_WriteHeader lib tw h")
    have r: "addFileToTarWriter lib fs q dir tw =
        (case e of Some err \<Rightarrow> (Some err, tw1) | None \<Rightarrow> io_Copy tw1 (os_File_source f))"
      by (simp add: addFileToTarWriter_def Inr name os_File_Stat_def Let_def h_def[symmetric] w)
    show ?thesis
    proof (cases e)
      case (Some err)
      with w r tar_WriteHeader_Some[of lib tw h err tw1] show ?thesis by simp
    next
      case None
      then have "finished tw1 = written tw"
        using tar_WriteHeader_None[of lib tw h tw1] w by (simp add: put_def)
      then show ?thesis
        using written_prefix_finished[of "snd (io_Copy tw1 (os_File_source f))"]
        by (simp add: r None finished_io_Copy)
    qed
  qed
qed

subsection \<open>The loop of CreateGzippedTarball\<close>

lemma Create_loop_success:
  assumes "CreateGzippedTarball_loop lib tar dir rm fps tw fs = (None, tw', fs')"
    and "distinct fps" and "\<not> closed tw" and "remaining tw = 0"
  shows "\<exists>es. written tw' = written tw @ es \<and> list_all (valid_entry lib) es \<and>
     list_all2 (\<lambda>q e. \<exists>c m t name. lookup fs q = Some (File c m t) \<and>
         filepath_Rel dir q = Inr name \<and>
         e = (\<lparr>Name = name, Size = length c, Mode = m, ModTime = t\<rparr>, c))
       (filter (\<lambda>q. q \<noteq> tar) fps) es \<and>
     \<not> closed tw' \<and> remaining tw' = 0"
  using assms
proof (induction fps arbitrary: tw fs)
  case Nil
  then show ?case by simp
next
  case (Cons q fps)
  show ?case
  proof (cases "q = tar")
    case True
    with Cons.prems have "CreateGzippedTarball_loop lib tar dir rm fps tw fs = (None, tw', fs')"
      "distinct fps"
      by simp_all
    from Cons.IH[OF this Cons.prems(3,4)] show ?thesis
      by (simp add: True)
  next
    case False
    obtain e tw1 where a: "addFileToTarWriter lib fs q dir tw = (e, tw1)"
      by (cases "addFileToTarWriter lib fs q dir tw")
    with Cons.prems(1) False have e: "e = None"
      by (cases e) auto
    define fs1 where "fs1 = (if rm then snd (os_Remove fs q) else fs)"
    from Cons.prems(1) False a e have run:
      "CreateGzippedTarball_loop lib tar dir rm fps tw1 fs1 = (None, tw', fs')"
      by (simp add: fs1_def)
    from addFile_success[OF a[unfolded e]] obtain c m t name where s:
      "lookup fs q = Some (File c m t)" "filepath_Rel dir q = Inr name"
      "allowedFormats lib \<lparr>Name = name, Size = length c, Mode = m, ModTime = t\<rparr> = None"
      "tw1 = put tw (\<lparr>Name = name, Size = length c, Mode = m, ModTime = t\<rparr>, c)"
      by blast
    let ?e = "(\<lparr>Name = name, Size = length c, Mode = m, ModTime = t\<rparr>, c)"
    have tw1: "\<not> closed tw1" "remaining tw1 = 0" "written tw1 = written tw @ [?e]"
      using Cons.prems(3) by (simp_all add: s(4) closed_put remaining_put written_put)
    from Cons.prems(2) have d: "distinct fps" "q \<notin> set fps"
      by simp_all
    from Cons.IH[OF run d(1) tw1(1,2)] obtain es where es:
      "written tw' = written tw1 @ es" "list_all (valid_entry lib) es"
      "list_all2 (\<lambda>q e. \<exists>c m t name. lookup fs1 q = Some (File c m t) \<and>
         filepath_Rel dir q = Inr name \<and>
         e = (\<lparr>Name = name, Size = length c, Mode = m, ModTime = t\<rparr>, c))
       (filter (\<lambda>q. q \<noteq> tar) fps) es"
      "\<not> closed tw'" "remaining tw' = 0"
      by blast
    have same: "lookup fs1 x = lookup fs x" if "x \<in> set fps" for x
    proof -
      from that d(2) have "x \<noteq> q" by auto
      then show ?thesis by (simp add: fs1_def lookup_os_Remove_other)
    qed
    have l2: "list_all2 (\<lambda>q e. \<exists>c m t name. lookup fs q = Some (File c m t) \<and>
         filepath_Rel dir q = Inr name \<and>
         e = (\<lparr>Name = name, Size = length c, Mode = m, ModTime = t\<rparr>, c))
       (filter (\<lambda>q. q \<noteq> tar) fps) es"
      using es(3) by (rule list.rel_mono_strong) (auto simp: same)
    show ?thesis
    proof (intro exI[of _ "?e # es"] conjI)
      show "written tw' = written tw @ ?e # es"
        by (simp add: es(1) tw1(3))
      show "list_all (valid_entry lib) (?e # es)"
        using es(2) s(3) by (simp add: valid_entry_def)
      show "list_all2 (\<lambda>q e. \<exists>c m t name. lookup fs q = Some (File c m t) \<and>
         filepath_Rel dir q = Inr name \<and>
         e = (\<lparr>Name = name, Size = length c, Mode = m, ModTime = t\<rparr>, c))
       (filter (\<lambda>q. q \<noteq> tar) (q # fps)) (?e # es)"
        using l2 s(1,2) False by simp
    qed (rule es(4), rule es(5))
  qed
qed

lemma Create_loop_changes:
  assumes "CreateGzippedTarball_loop lib tar dir rm fps tw fs = (err, tw', fs')"
  shows "prefix (written tw) (written tw') \<and>
     (\<forall>p. lookup fs' p \<noteq> lookup fs p \<longrightarrow>
        rm \<and> p \<noteq> tar \<and> lookup fs' p = None \<and>
        (\<exists>c m t name. lookup fs p = Some (File c m t) \<and> filepath_Rel dir p = Inr name \<and>
           (\<lparr>Name = name, Size = length c, Mode = m, ModTime = t\<rparr>, c) \<in> set (written tw')))"
  using assms
proof (induction fps arbitrary: tw fs)
  case Nil
  then show ?case by simp
next
  case (Cons q fps)
  show ?case
  proof (cases "q = tar")
    case True
    with Cons.prems have "CreateGzippedTarball_loop lib tar dir rm fps tw fs = (err, tw', fs')"
      by simp
    from Cons.IH[OF this] show ?thesis .
  next
    case False
    obtain e tw1 where a: "addFileToTarWriter lib fs q dir tw = (e, tw1)"
      by (cases "addFileToTarWriter lib fs q dir tw")
    have p1: "prefix (written tw) (written tw1)"
      using addFile_written[of tw lib fs q dir] a by simp
    show ?thesis
    proof (cases e)
      case (Some x)
      with Cons.prems False a have "tw' = tw1" "fs' = fs"
        by simp_all
      with p1 show ?thesis by simp
    next
      case None
      define fs1 where "fs1 = (if rm then snd (os_Remove fs q) else fs)"
      from Cons.prems False a None have run:
        "CreateGzippedTarball_loop lib tar dir rm fps tw1 fs1 = (err, tw', fs')"
        by (simp add: fs1_def)
      note ih = Cons.IH[OF run]
      from addFile_success[OF a[unfolded None]] obtain c m t name where s:
        "lookup fs q = Some (File c m t)" "filepath_Rel dir q = Inr name"
        "tw1 = put tw (\<lparr>Name = name, Size = length c, Mode = m, ModTime = t\<rparr>, c)"
        by blast
      let ?e = "(\<lparr>Name = name, Size = length c, Mode = m, ModTime = t\<rparr>, c)"
      have "?e \<in> set (written tw1)"
        by (simp add: s(3) written_put)
      with ih have in': "?e \<in> set (written tw')"
        using set_mono_prefix by blast
      have p: "prefix (written tw) (written tw')"
        using p1 ih by (meson prefix_order.order_trans)
      have "rm \<and> x \<noteq> tar \<and> lookup fs' x = None \<and>
        (\<exists>c m t name. lookup fs x = Some (File c m t) \<and> filepath_Rel dir x = Inr name \<and>
           (\<lparr>Name = name, Size = length c, Mode = m, ModTime = t\<rparr>, c) \<in> set (written tw'))"
        if x: "lookup fs' x \<noteq> lookup fs x" for x
      proof (cases "lookup fs1 x = lookup fs x")
        case True
        with x have "lookup fs' x \<noteq> lookup fs1 x" by simp
        from ih[THEN conjunct2, rule_format, OF this] show ?thesis
          by (simp add: True)
      next
        case F: False
        then have rm: rm and xq: "x = q" and gone: "lookup fs1 x = None"
          using lookup_os_Remove[of fs q x] by (auto simp: fs1_def split: if_splits)
        have "lookup fs' x = None"
          using ih[THEN conjunct2, rule_format, of x] gone
          by (cases "lookup fs' x = lookup fs1 x") auto
        with rm xq False s in' show ?thesis
          by auto
      qed
      with p show ?thesis by blast
    qed
  qed
qed


subsection \<open>CreateGzippedTarball, step by step\<close>

lemma written_tar_Close: "written (snd (tar_Close tw)) = written tw"
  by (simp add: tar_Close_def written_def)

lemma lookup_deferred:
  "lookup (CreateGzippedTarball_deferred lib tar tw fs) q =
     (if q = tar
      then (case lookup fs tar of
              Some (File old m t) \<Rightarrow>
                Some (File (gzip_tar lib (written tw) (trailer (snd (tar_Close tw)))) m t)
            | x \<Rightarrow> x)
      else lookup fs q)"
  by (simp add: CreateGzippedTarball_deferred_def lookup_close_file sink_bytes_def
      written_tar_Close)

text \<open>
  Either the call ends before the loop and removes nothing, or it runs through
  \<^verbatim>\<open>os.Stat\<close>, \<^verbatim>\<open>os.MkdirAll\<close>, \<^verbatim>\<open>os.Create\<close>, the listing and the loop, and ends
  with the deferred calls.
\<close>

lemma Create_chain:
  assumes "CreateGzippedTarball lib fs tar path rm = (err, fs')"
  shows "(err \<noteq> None \<and> (\<forall>p. lookup fs p \<noteq> None \<longrightarrow> lookup fs' p \<noteq> None)) \<or>
     (\<exists>info fs1 fs2 fps tw' fs3.
        os_Stat fs path = Inr info \<and>
        os_MkdirAll fs (filepath_Dir tar) 448 = (None, fs1) \<and>
        os_Create fs1 tar = Inr fs2 \<and>
        (if \<not> FileInfo_IsDir info then Inr [path] else filepath_Glob fs2 (path @ ''/*'')) =
          Inr fps \<and>
        CreateGzippedTarball_loop lib tar (filepath_Dir path) rm fps tar_NewWriter fs2 =
          (err, tw', fs3) \<and>
        fs' = CreateGzippedTarball_deferred lib tar tw' fs3)"
proof (cases "os_Stat fs path")
  case (Inl e)
  with assms show ?thesis by (auto simp: CreateGzippedTarball_def)
next
  case (Inr info)
  obtain e1 fs1 where m: "os_MkdirAll fs (filepath_Dir tar) 448 = (e1, fs1)"
    by (cases "os_MkdirAll fs (filepath_Dir tar) 448")
  have k1: "\<And>p. lookup fs p \<noteq> None \<Longrightarrow> lookup fs1 p \<noteq> None"
    using os_MkdirAll_keeps[of fs _ _ "filepath_Dir tar" 448] m by fastforce
  show ?thesis
  proof (cases e1)
    case (Some e)
    with assms Inr m k1 show ?thesis by (auto simp: CreateGzippedTarball_def Let_def)
  next
    case None
    show ?thesis
    proof (cases "os_Create fs1 tar")
      case (Inl e)
      with assms Inr m None k1 show ?thesis by (auto simp: CreateGzippedTarball_def Let_def)
    next
      case c: (Inr fs2)
      note c' = os_Create_result[OF c]
      have k2: "\<And>p. lookup fs p \<noteq> None \<Longrightarrow> lookup fs2 p \<noteq> None"
        using k1 c' by (metis option.distinct(1))
      show ?thesis
      proof (cases "if \<not> FileInfo_IsDir info then Inr [path]
          else filepath_Glob fs2 (path @ ''/*'')")
        case (Inl e)
        with assms Inr m None c have "err \<noteq> None"
          "fs' = CreateGzippedTarball_deferred lib tar tar_NewWriter fs2"
          by (auto simp: CreateGzippedTarball_def Let_def)
        moreover have "lookup fs' p \<noteq> None" if "lookup fs p \<noteq> None" for p
          using k2[OF that] calculation(2)
          by (auto simp: lookup_deferred split: option.splits node.splits)
        ultimately show ?thesis by blast
      next
        case g: (Inr fps)
        obtain e tw' fs3 where
          l: "CreateGzippedTarball_loop lib tar (filepath_Dir path) rm fps tar_NewWriter fs2 =
            (e, tw', fs3)"
          by (cases "CreateGzippedTarball_loop lib tar (filepath_Dir path) rm fps tar_NewWriter fs2")
        from assms Inr m None c g l have "err = e"
          "fs' = CreateGzippedTarball_deferred lib tar tw' fs3"
          by (auto simp: CreateGzippedTarball_def Let_def split: if_splits)
        with Inr m None c g l show ?thesis by blast
      qed
    qed
  qed
qed


lemma list_all2_setD1: "list_all2 R xs ys \<Longrightarrow> x \<in> set xs \<Longrightarrow> \<exists>y \<in> set ys. R x y"
  by (induction rule: list_all2_induct) auto

lemma list_all2_setD2: "list_all2 R xs ys \<Longrightarrow> y \<in> set ys \<Longrightarrow> \<exists>x \<in> set xs. R x y"
  by (induction rule: list_all2_induct) auto

lemma cleaned_not_Nil: "cleaned p \<Longrightarrow> p \<noteq> []"
  by (auto simp: cleaned_def)

lemma addFile_ok:
  assumes "lookup fs q = Some (File c m t)" and "filepath_Rel dir q = Inr name"
    and "allowedFormats lib \<lparr>Name = name, Size = length c, Mode = m, ModTime = t\<rparr> = None"
    and "\<not> closed tw" and "remaining tw = 0"
  shows "addFileToTarWriter lib fs q dir tw =
     (None, put tw (\<lparr>Name = name, Size = length c, Mode = m, ModTime = t\<rparr>, c))"
  using tar_WriteHeader_ok[OF assms(4,5,3)]
    io_Copy_ok[OF assms(4), of c "\<lparr>Name = name, Size = length c, Mode = m, ModTime = t\<rparr>" None]
  by (simp add: addFileToTarWriter_def os_Open_def os_File_Stat_def assms(1,2) ioutil_ReadAll_def)

lemma Create_loop_runs:
  assumes "distinct fps" and "\<not> closed tw" and "remaining tw = 0"
    and "\<forall>q \<in> set fps. q \<noteq> tar \<longrightarrow>
       (\<exists>c m t name. lookup fs q = Some (File c m t) \<and> filepath_Rel dir q = Inr name \<and>
          allowedFormats lib \<lparr>Name = name, Size = length c, Mode = m, ModTime = t\<rparr> = None)"
  shows "fst (CreateGzippedTarball_loop lib tar dir rm fps tw fs) = None"
  using assms
proof (induction fps arbitrary: tw fs)
  case Nil
  then show ?case by simp
next
  case (Cons q fps)
  from Cons.prems(1) have d: "distinct fps" "q \<notin> set fps"
    by simp_all
  show ?case
  proof (cases "q = tar")
    case True
    with Cons.IH[OF d(1) Cons.prems(2,3), of fs] Cons.prems(4) show ?thesis
      by simp
  next
    case False
    with Cons.prems(4) obtain c m t name where f:
      "lookup fs q = Some (File c m t)" "filepath_Rel dir q = Inr name"
      "allowedFormats lib \<lparr>Name = name, Size = length c, Mode = m, ModTime = t\<rparr> = None"
      by auto
    let ?e = "(\<lparr>Name = name, Size = length c, Mode = m, ModTime = t\<rparr>, c)"
    define fs1 where "fs1 = (if rm then snd (os_Remove fs q) else fs)"
    have same: "lookup fs1 x = lookup fs x" if "x \<in> set fps" for x
    proof -
      from that d(2) have "x \<noteq> q" by auto
      then show ?thesis by (simp add: fs1_def lookup_os_Remove_other)
    qed
    have "fst (CreateGzippedTarball_loop lib tar dir rm fps (put tw ?e) fs1) = None"
      using Cons.prems(2,4)
      by (intro Cons.IH[OF d(1)]) (simp_all add: closed_put remaining_put same)
    then show ?thesis
      using False by (simp add: addFile_ok[OF f Cons.prems(2,3)] fs1_def)
  qed
qed

lemma in_nodes_lookup: "k \<in> fst ` set (nodes fs) \<Longrightarrow> \<exists>node. lookup fs k = Some node"
  by (cases "lookup fs k") (auto simp: lookup_def map_of_eq_None_iff)


section \<open>The properties of the specification\<close>

subsection \<open>Extraction of one entry\<close>

text \<open>
  Claim C5. On an archive that decodes, \<^verbatim>\<open>ReadFileFromGzippedTarball\<close> returns the whole
  payload of the first entry whose name equals the path. When the stream ends regularly
  and no entry before the end has that name (also when there is no entry at all), it fails
  with the error whose message is \<^verbatim>\<open>no file named <path> in tarball\<close>. When decoding
  fails before an entry with that name is found (at the gzip header, at a header, or in
  the payload of an entry that is skipped), it returns the error of the decoder.
\<close>

theorem ReadFileFromGzippedTarball_first_match_or_error:
  "(gzip_NewReader lib data = Inr (followed_by es (Entry h b s)) \<and>
      (\<forall>e \<in> set es. Name (fst e) \<noteq> path) \<and> Name h = path \<longrightarrow>
      ReadFileFromGzippedTarball lib data path = (Some b, None)) \<and>
   (gzip_NewReader lib data = Inr (followed_by es (Stop EOF)) \<and>
      (\<forall>e \<in> set es. Name (fst e) \<noteq> path) \<longrightarrow>
      ReadFileFromGzippedTarball lib data path =
        (None, Some (Errorf (''no file named '' @ path @ '' in tarball'')))) \<and>
   (err \<noteq> EOF \<and> (\<forall>e \<in> set es. Name (fst e) \<noteq> path) \<and>
      (gzip_NewReader lib data = Inr (followed_by es (Stop err)) \<or>
       Name h \<noteq> path \<and> gzip_NewReader lib data = Inr (followed_by es (Torn h b err))) \<longrightarrow>
      ReadFileFromGzippedTarball lib data path = (None, Some err)) \<and>
   (gzip_NewReader lib data = Inl err \<longrightarrow>
      ReadFileFromGzippedTarball lib data path = (None, Some err))"
  by (auto simp: ReadFileFromGzippedTarball_def Read_loop_skip Read_loop_Entry Read_loop_Stop
      Read_loop_Torn)

theorem ReadFileFromGzippedTarball_first_match_or_error_witness:
  "ReadFileFromGzippedTarball mini
     (mini_gzip_tar [(hdr ''a'' 2, [1, 2]), (hdr ''b'' 1, [3]), (hdr ''b'' 1, [4])] True) ''b'' =
     (Some [3], None) \<and>
   ReadFileFromGzippedTarball mini (mini_gzip_tar [(hdr ''a'' 2, [1, 2])] True) ''c'' =
     (None, Some (Errorf ''no file named c in tarball'')) \<and>
   ReadFileFromGzippedTarball mini (mini_gzip_tar [] True) ''c'' =
     (None, Some (Errorf ''no file named c in tarball'')) \<and>
   ReadFileFromGzippedTarball mini (mini_gzip_tar [(hdr ''a'' 2, [1, 2])] False) ''c'' =
     (None, Some (Corrupt ''unexpected EOF'')) \<and>
   ReadFileFromGzippedTarball mini [] ''c'' = (None, Some EOF)"
proof -
  note T = ReadFileFromGzippedTarball_first_match_or_error
  have 1: "gzip_NewReader mini
      (mini_gzip_tar [(hdr ''a'' 2, [1, 2]), (hdr ''b'' 1, [3]), (hdr ''b'' 1, [4])] True) =
      Inr (followed_by [(hdr ''a'' 2, [1, 2])]
        (Entry (hdr ''b'' 1) [3] (followed_by [(hdr ''b'' 1, [4])] (Stop EOF))))"
    by code_simp
  have 2: "gzip_NewReader mini (mini_gzip_tar [(hdr ''a'' 2, [1, 2])] True) =
      Inr (followed_by [(hdr ''a'' 2, [1, 2])] (Stop EOF))"
    by code_simp
  have 3: "gzip_NewReader mini (mini_gzip_tar [] True) = Inr (followed_by [] (Stop EOF))"
    by code_simp
  have 4: "gzip_NewReader mini (mini_gzip_tar [(hdr ''a'' 2, [1, 2])] False) =
      Inr (followed_by [(hdr ''a'' 2, [1, 2])] (Stop (Corrupt ''unexpected EOF'')))"
    by code_simp
  have 5: "gzip_NewReader mini [] = Inl EOF"
    by code_simp
  have n: "\<forall>e \<in> set [(hdr ''a'' 2, [1, 2 :: byte])]. Name (fst e) \<noteq> ''b''"
    "\<forall>e \<in> set [(hdr ''a'' 2, [1, 2 :: byte])]. Name (fst e) \<noteq> ''c''"
    "Name (hdr ''b'' 1) = ''b''"
    by (simp_all add: hdr_def)
  show ?thesis
    using T[THEN conjunct1, rule_format, OF conjI[OF 1 conjI[OF n(1) n(3)]]]
      T[THEN conjunct2, THEN conjunct1, rule_format, OF conjI[OF 2 n(2)]]
      T[THEN conjunct2, THEN conjunct1, rule_format, of mini _ "[]" "''c''"] 3
      T[THEN conjunct2, THEN conjunct2, THEN conjunct1, rule_format,
        of "Corrupt ''unexpected EOF''" "[(hdr ''a'' 2, [1, 2])]" "''c''" mini] 4 n(2)
      T[THEN conjunct2, THEN conjunct2, THEN conjunct2, rule_format, OF 5]
    by simp
qed

subsection \<open>Transcoding into a tar writer\<close>



text \<open>
  Claim C7. With the empty prefix, \<^verbatim>\<open>WriteTarballToTarWriter\<close> on a valid archive
  appends the entries of the archive to the writer, headers and payloads unchanged and in
  the same order. On every input and on every exit path, the writer of the caller is
  closed after the call only if it was closed before: the function never closes it.
\<close>

theorem WriteTarballToTarWriter_copy_keeps_writer_open:
  "(valid_archive lib data es \<and> \<not> closed tarWriter \<and> remaining tarWriter = 0 \<longrightarrow>
      (\<exists>tw'. WriteTarballToTarWriter lib data tarWriter [] = (None, tw') \<and>
         written tw' = written tarWriter @ es)) \<and>
   closed (snd (WriteTarballToTarWriter lib data tarWriter pathPrefixToTrim)) = closed tarWriter"
proof (intro conjI impI)
  assume a: "valid_archive lib data es \<and> \<not> closed tarWriter \<and> remaining tarWriter = 0"
  then have v: "list_all (valid_entry lib) (map (trimmed []) es)"
    by (simp add: valid_archive_def trimmed_Nil[abs_def])
  from Write_loop_entries[OF v, of tarWriter "Stop EOF"] a
  have "WriteTarballToTarWriter lib data tarWriter [] =
      (None, fold (\<lambda>e tw. put tw e) es tarWriter)"
    by (simp add: WriteTarballToTarWriter_def valid_archive_def Write_loop_Stop
        trimmed_Nil[abs_def])
  then show "\<exists>tw'. WriteTarballToTarWriter lib data tarWriter [] = (None, tw') \<and>
      written tw' = written tarWriter @ es"
    by (simp add: written_fold_put)
next
  show "closed (snd (WriteTarballToTarWriter lib data tarWriter pathPrefixToTrim)) =
      closed tarWriter"
    by (simp add: WriteTarballToTarWriter_def Write_loop_closed split: sum.splits)
qed

theorem WriteTarballToTarWriter_copy_keeps_writer_open_witness:
  "(\<exists>tw'. WriteTarballToTarWriter mini
       (mini_gzip_tar [(hdr ''x'' 1, [7]), (hdr ''y'' 2, [8, 9])] True) tar_NewWriter [] =
       (None, tw') \<and>
     written tw' = [(hdr ''x'' 1, [7]), (hdr ''y'' 2, [8, 9])]) \<and>
   \<not> closed (snd (WriteTarballToTarWriter mini
       (mini_gzip_tar [(hdr ''x'' 1, [7]), (hdr ''y'' 2, [8, 9])] False) tar_NewWriter ''x''))"
proof -
  have 1: "valid_archive mini (mini_gzip_tar [(hdr ''x'' 1, [7]), (hdr ''y'' 2, [8, 9])] True)
      [(hdr ''x'' 1, [7]), (hdr ''y'' 2, [8, 9])]"
    by code_simp
  have 2: "\<not> closed tar_NewWriter" "remaining tar_NewWriter = 0"
    by (simp_all add: tar_NewWriter_def remaining_def)
  show ?thesis
    using WriteTarballToTarWriter_copy_keeps_writer_open[THEN conjunct1, rule_format,
        OF conjI[OF 1 conjI[OF 2]]]
      WriteTarballToTarWriter_copy_keeps_writer_open[THEN conjunct2, of mini
        "mini_gzip_tar [(hdr ''x'' 1, [7]), (hdr ''y'' 2, [8, 9])] False" tar_NewWriter "''x''"]
    by (simp add: tar_NewWriter_def written_def)
qed

subsection \<open>Combining archives\<close>

text \<open>
  Claim C4. \<^verbatim>\<open>CombineTarballs\<close> returns either bytes and no error, or an error and no
  bytes: never both, so no part of a combined archive comes with an error. When one of the
  sources fails to decode (at its gzip header, at a header or inside a payload), the call
  returns an error and no bytes. When the sources before the failing one are valid
  archives and the entries before the failure are valid, the error is the one of that
  failure: the error of \<^verbatim>\<open>gzip.NewReader\<close>, of \<^verbatim>\<open>Next\<close>, or of the copy of the payload.
  The same holds when the copy of an entry fails at the writer: when \<^verbatim>\<open>WriteHeader\<close>
  refuses the header of an entry, the call returns that error and no bytes, and when an
  entry has more payload than its header announces, it returns \<^verbatim>\<open>ErrWriteTooLong\<close> and
  no bytes.
\<close>

theorem CombineTarballs_error_without_output:
  "((\<exists>b. CombineTarballs lib readers = (Some b, None)) \<or>
    (\<exists>e. CombineTarballs lib readers = (None, Some e))) \<and>
   (d \<in> set readers \<and> decode_fails lib d \<longrightarrow>
      (\<exists>e. CombineTarballs lib readers = (None, Some e))) \<and>
   (list_all2 (valid_archive lib) good ess \<and>
    (gzip_NewReader lib bad = Inl err \<or>
     err \<noteq> EOF \<and> list_all (valid_entry lib) es \<and>
       (gzip_NewReader lib bad = Inr (followed_by es (Stop err)) \<or>
        gzip_NewReader lib bad = Inr (followed_by es (Torn h b err)) \<and>
          allowedFormats lib h = None \<and> length b \<le> Size h)) \<longrightarrow>
      CombineTarballs lib (good @ bad # rest) = (None, Some err)) \<and>
   (list_all2 (valid_archive lib) good ess \<and> list_all (valid_entry lib) es \<and>
    (gzip_NewReader lib bad = Inr (followed_by es (Entry h b s)) \<or>
     gzip_NewReader lib bad = Inr (followed_by es (Torn h b e))) \<and>
    (allowedFormats lib h = Some err \<or>
     allowedFormats lib h = None \<and> Size h < length b \<and> err = ErrWriteTooLong) \<longrightarrow>
      CombineTarballs lib (good @ bad # rest) = (None, Some err))"
proof (intro conjI impI)
  show "(\<exists>b. CombineTarballs lib readers = (Some b, None)) \<or>
    (\<exists>e. CombineTarballs lib readers = (None, Some e))"
    by (rule CombineTarballs_all_or_nothing)
next
  assume "d \<in> set readers \<and> decode_fails lib d"
  then obtain e where "fst (CombineTarballs_readers lib readers tar_NewWriter) = Some e"
    using Combine_readers_decode_fails[of d readers lib tar_NewWriter] by blast
  then show "\<exists>e. CombineTarballs lib readers = (None, Some e)"
    by (auto simp: CombineTarballs_def split: prod.splits)
next
  assume a: "list_all2 (valid_archive lib) good ess \<and>
    (gzip_NewReader lib bad = Inl err \<or>
     err \<noteq> EOF \<and> list_all (valid_entry lib) es \<and>
       (gzip_NewReader lib bad = Inr (followed_by es (Stop err)) \<or>
        gzip_NewReader lib bad = Inr (followed_by es (Torn h b err)) \<and>
          allowedFormats lib h = None \<and> length b \<le> Size h))"
  define tw where "tw = fold (\<lambda>e tw. put tw e) (concat ess) tar_NewWriter"
  have new: "\<not> closed tar_NewWriter" "remaining tar_NewWriter = 0"
    by (simp_all add: tar_NewWriter_def remaining_def)
  have all: "list_all (valid_entry lib) (concat ess)"
    using a[THEN conjunct1]
    by (induction good ess rule: list_all2_induct) (auto simp: valid_archive_def)
  have tw: "\<not> closed tw" "remaining tw = 0"
    using new all by (simp_all add: tw_def closed_fold_put remaining_fold_put)
  have run: "CombineTarballs_readers lib (good @ bad # rest) tar_NewWriter =
      CombineTarballs_readers lib (bad # rest) tw"
    using Combine_readers_valid[OF a[THEN conjunct1] new] by (simp add: tw_def)
  have "fst (CombineTarballs_func lib bad tw) = Some err"
    using a[THEN conjunct2]
  proof (elim disjE conjE)
    assume "gzip_NewReader lib bad = Inl err"
    then show ?thesis by (simp add: CombineTarballs_func_def)
  next
    assume b: "err \<noteq> EOF" "list_all (valid_entry lib) es"
      "gzip_NewReader lib bad = Inr (followed_by es (Stop err))"
    have v: "list_all (valid_entry lib) (map (trimmed []) es)"
      using b(2) by (simp add: trimmed_Nil[abs_def])
    show ?thesis
      using Write_loop_entries[OF v tw, of "Stop err"] b(1,3)
      by (simp add: CombineTarballs_func_def Combine_loop_eq Write_loop_Stop)
  next
    assume b: "err \<noteq> EOF" "list_all (valid_entry lib) es"
      "gzip_NewReader lib bad = Inr (followed_by es (Torn h b err))"
      "allowedFormats lib h = None" "length b \<le> Size h"
    have v: "list_all (valid_entry lib) (map (trimmed []) es)"
      using b(2) by (simp add: trimmed_Nil[abs_def])
    let ?tw = "fold (\<lambda>e tw. put tw e) (map (trimmed []) es) tw"
    have tw': "\<not> closed ?tw" "remaining ?tw = 0"
      using tw v by (simp_all add: closed_fold_put remaining_fold_put)
    have h: "allowedFormats lib (fst (trimmed [] (h, []))) = None"
      using b(4) by (simp add: trimmed_Nil)
    show ?thesis
      using Write_loop_entries[OF v tw, of "Torn h b err"] b(3)
        Write_loop_Torn[OF h b(5) tw' b(1)]
      by (simp add: CombineTarballs_func_def Combine_loop_eq)
  qed
  then show "CombineTarballs lib (good @ bad # rest) = (None, Some err)"
    by (auto simp: CombineTarballs_def run split: prod.splits)
next
  assume a: "list_all2 (valid_archive lib) good ess \<and> list_all (valid_entry lib) es \<and>
    (gzip_NewReader lib bad = Inr (followed_by es (Entry h b s)) \<or>
     gzip_NewReader lib bad = Inr (followed_by es (Torn h b e))) \<and>
    (allowedFormats lib h = Some err \<or>
     allowedFormats lib h = None \<and> Size h < length b \<and> err = ErrWriteTooLong)"
  then have good: "list_all2 (valid_archive lib) good ess" and es: "list_all (valid_entry lib) es"
    and refused: "allowedFormats lib h = Some err \<or>
      allowedFormats lib h = None \<and> Size h < length b \<and> err = ErrWriteTooLong"
    by blast+
  from a obtain t where t: "t = Entry h b s \<or> t = Torn h b e"
    "gzip_NewReader lib bad = Inr (followed_by es t)"
    by blast
  define tw where "tw = fold (\<lambda>e tw. put tw e) (concat ess) tar_NewWriter"
  have new: "\<not> closed tar_NewWriter" "remaining tar_NewWriter = 0"
    by (simp_all add: tar_NewWriter_def remaining_def)
  have all: "list_all (valid_entry lib) (concat ess)"
    using good by (induction good ess rule: list_all2_induct) (auto simp: valid_archive_def)
  have tw: "\<not> closed tw" "remaining tw = 0"
    using new all by (simp_all add: tw_def closed_fold_put remaining_fold_put)
  have run: "CombineTarballs_readers lib (good @ bad # rest) tar_NewWriter =
      CombineTarballs_readers lib (bad # rest) tw"
    using Combine_readers_valid[OF good new] by (simp add: tw_def)
  have v: "list_all (valid_entry lib) (map (trimmed []) es)"
    using es by (simp add: trimmed_Nil[abs_def])
  let ?tw = "fold (\<lambda>e tw. put tw e) (map (trimmed []) es) tw"
  have tw': "\<not> closed ?tw" "remaining ?tw = 0"
    using tw v by (simp_all add: closed_fold_put remaining_fold_put)
  have r: "allowedFormats lib (fst (trimmed [] (h, []))) = Some err \<or>
      allowedFormats lib (fst (trimmed [] (h, []))) = None \<and> Size h < length b \<and>
        err = ErrWriteTooLong"
    using refused by (simp add: trimmed_Nil)
  have "fst (CombineTarballs_func lib bad tw) = Some err"
    using Write_loop_entries[OF v tw, of t] Write_loop_refused[OF tw' t(1) r]
    by (simp add: CombineTarballs_func_def Combine_loop_eq t(2))
  then show "CombineTarballs lib (good @ bad # rest) = (None, Some err)"
    by (auto simp: CombineTarballs_def run split: prod.splits)
qed

theorem CombineTarballs_error_without_output_witness:
  "CombineTarballs mini
     [mini_gzip_tar [(hdr ''a'' 1, [5])] True, [31, 1, 1, 98, 6, 9, 3, 7], [31, 0]] =
     (None, Some (Corrupt ''unexpected EOF'')) \<and>
   CombineTarballs mini [mini_gzip_tar [(hdr ''a'' 1, [5])] True, [], [31, 0]] = (None, Some EOF) \<and>
   CombineTarballs picky
     [mini_gzip_tar [(hdr ''a'' 1, [5])] True, mini_gzip_tar [(hdr [] 1, [5])] True, [31, 0]] =
     (None, Some (Corrupt ''archive/tar: cannot encode header''))"
proof -
  have 1: "list_all2 (valid_archive mini) [mini_gzip_tar [(hdr ''a'' 1, [5])] True]
      [[(hdr ''a'' 1, [5])]]"
    by code_simp
  have 2: "gzip_NewReader mini [31, 1, 1, 98, 6, 9, 3, 7] =
      Inr (followed_by [] (Torn (hdr ''b'' 3) [7] (Corrupt ''unexpected EOF'')))"
    by code_simp
  have 3: "Corrupt ''unexpected EOF'' \<noteq> EOF" "list_all (valid_entry mini) []"
    "allowedFormats mini (hdr ''b'' 3) = None" "length [7 :: byte] \<le> Size (hdr ''b'' 3)"
    by (simp_all add: hdr_def mini_def mini_allowedFormats_def)
  have 4: "gzip_NewReader mini [] = Inl EOF"
    by code_simp
  have 5: "list_all2 (valid_archive picky) [mini_gzip_tar [(hdr ''a'' 1, [5])] True]
      [[(hdr ''a'' 1, [5])]]"
    by code_simp
  have 6: "gzip_NewReader picky (mini_gzip_tar [(hdr [] 1, [5])] True) =
      Inr (followed_by [] (Entry (hdr [] 1) [5] (Stop EOF)))"
    by code_simp
  have 7: "list_all (valid_entry picky) []"
    "allowedFormats picky (hdr [] 1) = Some (Corrupt ''archive/tar: cannot encode header'')"
    by (simp_all add: hdr_def picky_def)
  note T = CombineTarballs_error_without_output[THEN conjunct2, THEN conjunct2, THEN conjunct1,
      rule_format]
  note U = CombineTarballs_error_without_output[THEN conjunct2, THEN conjunct2, THEN conjunct2,
      rule_format]
  show ?thesis
    using T[OF conjI[OF 1 disjI2[OF conjI[OF 3(1) conjI[OF 3(2) disjI2[OF conjI[OF 2
        conjI[OF 3(3) 3(4)]]]]]]], of "[[31, 0]]"]
      T[OF conjI[OF 1 disjI1[OF 4]], of "[[31, 0]]"]
      U[OF conjI[OF 5 conjI[OF 7(1) conjI[OF disjI1[OF 6] disjI1[OF 7(2)]]]], of "[[31, 0]]"]
    by simp
qed

text \<open>
  Claim C2, as the code has it. Let the library read back what it writes, and let \<open>A\<close> and
  \<open>B\<close> be valid archives. Then \<^verbatim>\<open>CombineTarballs\<close> of \<open>A\<close> and \<open>B\<close> succeeds; the
  result is a valid archive with the entries of \<open>A\<close> followed by those of \<open>B\<close>, so its
  number of entries is the sum of theirs; extracting a name that is present in \<open>A\<close> gives
  what extracting it from \<open>A\<close> gives; extracting any other name gives what extracting it
  from \<open>B\<close> gives.
\<close>

theorem CombineTarballs_extraction:
  assumes "reads_back lib" and "valid_archive lib A esA" and "valid_archive lib B esB"
  shows "\<exists>C. CombineTarballs lib [A, B] = (Some C, None) \<and>
     valid_archive lib C (esA @ esB) \<and>
     entry_count lib C = entry_count lib A + entry_count lib B \<and>
     (\<forall>n. n \<in> (\<lambda>e. Name (fst e)) ` set esA \<longrightarrow>
        ReadFileFromGzippedTarball lib C n = ReadFileFromGzippedTarball lib A n) \<and>
     (\<forall>n. n \<notin> (\<lambda>e. Name (fst e)) ` set esA \<longrightarrow>
        ReadFileFromGzippedTarball lib C n = ReadFileFromGzippedTarball lib B n)"
proof -
  define C where "C = gzip_tar lib (esA @ esB) True"
  define tw where "tw = fold (\<lambda>e tw. put tw e) (esA @ esB) tar_NewWriter"
  have new: "\<not> closed tar_NewWriter" "remaining tar_NewWriter = 0" "written tar_NewWriter = []"
    by (simp_all add: tar_NewWriter_def remaining_def written_def)
  have all: "list_all (valid_entry lib) (esA @ esB)"
    using assms(2,3) by (simp add: valid_archive_def)
  have "CombineTarballs_readers lib ([A, B] @ []) tar_NewWriter =
      CombineTarballs_readers lib [] (fold (\<lambda>e tw. put tw e) (concat [esA, esB]) tar_NewWriter)"
    by (rule Combine_readers_valid) (use assms(2,3) new in simp_all)
  then have run: "CombineTarballs_readers lib [A, B] tar_NewWriter = (None, tw)"
    by (simp add: tw_def)
  have tw: "\<not> closed tw" "remaining tw = 0" "written tw = esA @ esB"
    unfolding tw_def using new remaining_fold_put[OF all new(2)]
    by (simp_all only: closed_fold_put written_fold_put append_Nil simp_thms)
  have "sink_bytes lib (snd (tar_Close tw)) = C"
    using tw(3) by (simp add: tar_Close_open[OF tw(1,2)] sink_bytes_def C_def written_def)
  then have out: "CombineTarballs lib [A, B] = (Some C, None)"
    unfolding CombineTarballs_def run by simp
  have dC: "gzip_NewReader lib C = Inr (followed_by (esA @ esB) (Stop EOF))"
    using assms(1) all by (simp add: reads_back_def C_def)
  have dA: "gzip_NewReader lib A = Inr (followed_by esA (Stop EOF))"
    and dB: "gzip_NewReader lib B = Inr (followed_by esB (Stop EOF))"
    using assms(2,3) by (simp_all add: valid_archive_def)
  have cnt: "\<And>es. headers_left (followed_by es (Stop EOF)) = length es"
    by (induct_tac es) auto
  have fnd: "\<And>P xs ys. find P (xs @ ys) = (case find P xs of None \<Rightarrow> find P ys | Some x \<Rightarrow> Some x)"
    by (induct_tac xs) auto
  have inA: "\<And>n. n \<in> (\<lambda>e. Name (fst e)) ` set esA \<Longrightarrow> find (\<lambda>e. Name (fst e) = n) esA \<noteq> None"
    by (auto simp: find_None_iff)
  have notA: "\<And>n. n \<notin> (\<lambda>e. Name (fst e)) ` set esA \<Longrightarrow> find (\<lambda>e. Name (fst e) = n) esA = None"
    by (force simp: find_None_iff)
  show ?thesis
  proof (intro exI[of _ C] conjI allI impI)
    show "CombineTarballs lib [A, B] = (Some C, None)" by (rule out)
    show "valid_archive lib C (esA @ esB)"
      using dC all by (simp add: valid_archive_def)
    show "entry_count lib C = entry_count lib A + entry_count lib B"
      by (simp add: entry_count_def dA dB dC cnt)
  next
    fix n assume "n \<in> (\<lambda>e. Name (fst e)) ` set esA"
    from inA[OF this] show
      "ReadFileFromGzippedTarball lib C n = ReadFileFromGzippedTarball lib A n"
      by (auto simp: ReadFileFromGzippedTarball_def dA dC Read_loop_archive fnd)
  next
    fix n assume "n \<notin> (\<lambda>e. Name (fst e)) ` set esA"
    from notA[OF this] show
      "ReadFileFromGzippedTarball lib C n = ReadFileFromGzippedTarball lib B n"
      by (simp add: ReadFileFromGzippedTarball_def dB dC Read_loop_archive fnd)
  qed
qed

theorem CombineTarballs_extraction_witness:
  "\<exists>C. CombineTarballs mini
       [mini_gzip_tar [(hdr ''f'' 1, [1]), (hdr ''g'' 1, [3])] True,
        mini_gzip_tar [(hdr ''f'' 1, [2]), (hdr ''k'' 2, [4, 5])] True] = (Some C, None) \<and>
     entry_count mini C = 4 \<and>
     ReadFileFromGzippedTarball mini C ''f'' = (Some [1], None) \<and>
     ReadFileFromGzippedTarball mini C ''k'' = (Some [4, 5], None)"
proof -
  let ?A = "mini_gzip_tar [(hdr ''f'' 1, [1]), (hdr ''g'' 1, [3])] True"
  let ?B = "mini_gzip_tar [(hdr ''f'' 1, [2]), (hdr ''k'' 2, [4, 5])] True"
  have A: "valid_archive mini ?A [(hdr ''f'' 1, [1]), (hdr ''g'' 1, [3])]"
    by code_simp
  have B: "valid_archive mini ?B [(hdr ''f'' 1, [2]), (hdr ''k'' 2, [4, 5])]"
    by code_simp
  have cA: "entry_count mini ?A = 2" and cB: "entry_count mini ?B = 2"
    by code_simp+
  have rA: "ReadFileFromGzippedTarball mini ?A ''f'' = (Some [1], None)"
    and rB: "ReadFileFromGzippedTarball mini ?B ''k'' = (Some [4, 5], None)"
    by code_simp+
  have n: "''f'' \<in> (\<lambda>e. Name (fst e)) ` set [(hdr ''f'' 1, [1 :: byte]), (hdr ''g'' 1, [3])]"
    "''k'' \<notin> (\<lambda>e. Name (fst e)) ` set [(hdr ''f'' 1, [1 :: byte]), (hdr ''g'' 1, [3])]"
    by (simp_all add: hdr_def)
  from CombineTarballs_extraction[OF mini_reads_back A B] obtain C where
    C: "CombineTarballs mini [?A, ?B] = (Some C, None)"
      "entry_count mini C = entry_count mini ?A + entry_count mini ?B"
      "\<forall>n. n \<in> (\<lambda>e. Name (fst e)) ` set [(hdr ''f'' 1, [1 :: byte]), (hdr ''g'' 1, [3])] \<longrightarrow>
        ReadFileFromGzippedTarball mini C n = ReadFileFromGzippedTarball mini ?A n"
      "\<forall>n. n \<notin> (\<lambda>e. Name (fst e)) ` set [(hdr ''f'' 1, [1 :: byte]), (hdr ''g'' 1, [3])] \<longrightarrow>
        ReadFileFromGzippedTarball mini C n = ReadFileFromGzippedTarball mini ?B n"
    by blast
  have "entry_count mini C = 4"
    using C(2) by (simp only: cA cB)
  moreover have "ReadFileFromGzippedTarball mini C ''f'' = (Some [1], None)"
    using C(3)[rule_format, OF n(1)] by (simp only: rA)
  moreover have "ReadFileFromGzippedTarball mini C ''k'' = (Some [4, 5], None)"
    using C(4)[rule_format, OF n(2)] by (simp only: rB)
  ultimately show ?thesis
    using C(1) by blast
qed

text \<open>
  The claim C2 as it is worded fails for a name that both archives hold with different
  payloads: extraction from the combined archive finds the entry of the first archive, not
  the one of the second.
\<close>

theorem CombineTarballs_extraction_counterexample:
  "valid_archive mini (mini_gzip_tar [(hdr ''f'' 1, [1])] True) [(hdr ''f'' 1, [1])] \<and>
   valid_archive mini (mini_gzip_tar [(hdr ''f'' 1, [2])] True) [(hdr ''f'' 1, [2])] \<and>
   ReadFileFromGzippedTarball mini (mini_gzip_tar [(hdr ''f'' 1, [2])] True) ''f'' =
     (Some [2], None) \<and>
   ReadFileFromGzippedTarball mini
     (the (fst (CombineTarballs mini
        [mini_gzip_tar [(hdr ''f'' 1, [1])] True, mini_gzip_tar [(hdr ''f'' 1, [2])] True])))
     ''f'' = (Some [1], None)"
  by code_simp

subsection \<open>Finding entries by pattern\<close>

text \<open>
  Claim C8. Let the pattern compile and the file of the archive open, and let decoding fail
  with an error after the entries \<open>es\<close>. Then \<^verbatim>\<open>GetFilePathsWithRegex\<close> returns that
  error together with the names that match among those read before the failure, in the
  order of the stream. When the failure is inside the payload of an entry, the header of
  that entry has been read and its name counts as well.
\<close>

theorem GetFilePathsWithRegex_names_before_failure:
  assumes "regexp_Compile regex = Inr r"
    and "lookup fs tarFilePath = Some (File data m t)"
    and "err \<noteq> EOF"
  shows "(gzip_NewReader lib data = Inr (followed_by es (Stop err)) \<longrightarrow>
      GetFilePathsWithRegex lib regexp_Compile fs tarFilePath regex =
        Return (filter r (map (\<lambda>e. Name (fst e)) es), Some err)) \<and>
     (gzip_NewReader lib data = Inr (followed_by es (Torn h b err)) \<longrightarrow>
      GetFilePathsWithRegex lib regexp_Compile fs tarFilePath regex =
        Return (filter r (map (\<lambda>e. Name (fst e)) es @ [Name h]), Some err))"
  using assms
  by (simp add: Get_open Get_loop_entries Get_loop_Stop Get_loop_Torn)

theorem GetFilePathsWithRegex_names_before_failure_witness:
  "GetFilePathsWithRegex mini mini_Compile
     (fs_tgz (mini_gzip_tar [(hdr ''a.go'' 1, [1]), (hdr ''b.md'' 1, [2]), (hdr ''c.go'' 1, [3])] False))
     ''/t.tgz'' ''.go'' =
     Return ([''a.go'', ''c.go''], Some (Corrupt ''unexpected EOF'')) \<and>
   GetFilePathsWithRegex mini mini_Compile (fs_tgz [31, 1, 1, 98, 6, 9, 3, 7]) ''/t.tgz'' ''b'' =
     Return ([''b''], Some (Corrupt ''unexpected EOF''))"
proof -
  have c: "mini_Compile ''.go'' = Inr (contains ''.go'')" "mini_Compile ''b'' = Inr (contains ''b'')"
    by (simp_all add: mini_Compile_def)
  have l: "\<And>data. lookup (fs_tgz data) ''/t.tgz'' = Some (File data 6 9)"
    by (simp add: fs_tgz_def lookup_def)
  have e: "Corrupt ''unexpected EOF'' \<noteq> EOF"
    by simp
  have 1: "gzip_NewReader mini
      (mini_gzip_tar [(hdr ''a.go'' 1, [1]), (hdr ''b.md'' 1, [2]), (hdr ''c.go'' 1, [3])] False) =
      Inr (followed_by [(hdr ''a.go'' 1, [1]), (hdr ''b.md'' 1, [2]), (hdr ''c.go'' 1, [3])]
        (Stop (Corrupt ''unexpected EOF'')))"
    by code_simp
  have 2: "gzip_NewReader mini [31, 1, 1, 98, 6, 9, 3, 7] =
      Inr (followed_by [] (Torn (hdr ''b'' 3) [7] (Corrupt ''unexpected EOF'')))"
    by code_simp
  have f: "filter (contains ''.go'')
      (map (\<lambda>e. Name (fst e)) [(hdr ''a.go'' 1, [1 :: byte]), (hdr ''b.md'' 1, [2]), (hdr ''c.go'' 1, [3])]) =
      [''a.go'', ''c.go'']"
    "filter (contains ''b'') (map (\<lambda>e. Name (fst e)) ([] :: (Header \<times> byte list) list) @ [Name (hdr ''b'' 3)]) = [''b'']"
    by code_simp+
  show ?thesis
    using GetFilePathsWithRegex_names_before_failure[where regexp_Compile = mini_Compile
        and regex = "''.go''", OF c(1) l e, THEN conjunct1, rule_format, OF 1]
      GetFilePathsWithRegex_names_before_failure[where regexp_Compile = mini_Compile
        and regex = "''b''", OF c(2) l e, THEN conjunct2, rule_format, OF 2]
    by (simp only: f)
qed

text \<open>
  Claim C3, as the code has it. With a pattern that does not compile,
  \<^verbatim>\<open>GetFilePathsWithRegex\<close> returns no error for the pattern: it has opened the file and
  the gzip reader and read the first header before it compiles the pattern. On an archive
  without entries it returns the empty list and no error; on an archive with an entry it
  panics in \<^verbatim>\<open>regexp.MustCompile\<close>; and an error of \<^verbatim>\<open>gzip.NewReader\<close> is returned
  before the pattern is looked at.
\<close>

theorem GetFilePathsWithRegex_malformed_pattern:
  assumes "regexp_Compile regex = Inl err"
    and "lookup fs tarFilePath = Some (File data m t)"
  shows "(gzip_NewReader lib data = Inr (Stop EOF) \<longrightarrow>
      GetFilePathsWithRegex lib regexp_Compile fs tarFilePath regex = Return ([], None)) \<and>
     (gzip_NewReader lib data = Inr (Entry h b s) \<longrightarrow>
      GetFilePathsWithRegex lib regexp_Compile fs tarFilePath regex = Panic err) \<and>
     (gzip_NewReader lib data = Inl e \<longrightarrow>
      GetFilePathsWithRegex lib regexp_Compile fs tarFilePath regex = Return ([], Some e))"
  using assms
  by (simp add: Get_open Get_loop_Stop Get_loop_Entry)

theorem GetFilePathsWithRegex_malformed_pattern_witness:
  "GetFilePathsWithRegex mini mini_Compile (fs_tgz (mini_gzip_tar [] True)) ''/t.tgz'' ''('' =
     Return ([], None) \<and>
   GetFilePathsWithRegex mini mini_Compile (fs_tgz (mini_gzip_tar [(hdr ''a'' 1, [1])] True))
     ''/t.tgz'' ''('' = Panic (Corrupt ''error parsing regexp: missing closing )'') \<and>
   GetFilePathsWithRegex mini mini_Compile (fs_tgz [0]) ''/t.tgz'' ''('' =
     Return ([], Some (Corrupt ''gzip: invalid header''))"
proof -
  have c: "mini_Compile ''('' = Inl (Corrupt ''error parsing regexp: missing closing )'')"
    by (simp add: mini_Compile_def)
  have l: "\<And>data. lookup (fs_tgz data) ''/t.tgz'' = Some (File data 6 9)"
    by (simp add: fs_tgz_def lookup_def)
  have 1: "gzip_NewReader mini (mini_gzip_tar [] True) = Inr (Stop EOF)"
    by code_simp
  have 2: "gzip_NewReader mini (mini_gzip_tar [(hdr ''a'' 1, [1])] True) =
      Inr (Entry (hdr ''a'' 1) [1] (Stop EOF))"
    by code_simp
  have 3: "gzip_NewReader mini [0] = Inl (Corrupt ''gzip: invalid header'')"
    by code_simp
  note T = GetFilePathsWithRegex_malformed_pattern[where regexp_Compile = mini_Compile
      and regex = "''(''", OF c l]
  show ?thesis
    using T[THEN conjunct1, rule_format, OF 1]
      T[THEN conjunct2, THEN conjunct1, rule_format, OF 2]
      T[THEN conjunct2, THEN conjunct2, rule_format, OF 3]
    by simp
qed

subsection \<open>The builder\<close>

text \<open>
  Claim C1, for a directory without pattern characters in its name. Let the library read
  back what it writes, let the two paths be clean and the source path free of the
  characters that \<^verbatim>\<open>filepath.Glob\<close> reads as a pattern, and let the source path be a
  directory. When the directory of the tarball exists, the tarball path is not a directory,
  and every entry of the source directory other than the tarball itself is a regular file
  whose header the tar format accepts, \<^verbatim>\<open>CreateGzippedTarball\<close> succeeds. Whenever it
  succeeds, the tarball path holds a regular file, and for every regular file of the
  source directory other than the tarball itself, \<^verbatim>\<open>ReadFileFromGzippedTarball\<close> on the
  bytes of the tarball, asked for the name that \<^verbatim>\<open>filepath.Rel\<close> gives the file, returns
  exactly the bytes the file had before the call, and no error.
\<close>

theorem CreateGzippedTarball_round_trip:
  assumes "reads_back lib"
    and "cleaned tarFilePath" and "cleaned path" and "\<not> hasMeta path"
    and "lookup fs path = Some (Dir sz dm dt)"
  shows "(lookup fs (filepath_Dir tarFilePath) = Some (Dir a b c) \<and>
      (\<forall>node. lookup fs tarFilePath = Some node \<longrightarrow> \<not> FileInfo_IsDir node) \<and>
      (\<forall>n node.
         is_name n \<and> filepath_Join path n \<noteq> tarFilePath \<and>
         lookup fs (filepath_Join path n) = Some node \<longrightarrow>
         (\<exists>c m t. node = File c m t \<and>
            (\<forall>name. filepath_Rel (filepath_Dir path) (filepath_Join path n) = Inr name \<longrightarrow>
               allowedFormats lib \<lparr>Name = name, Size = length c, Mode = m, ModTime = t\<rparr> =
                 None))) \<longrightarrow>
      fst (CreateGzippedTarball lib fs tarFilePath path removeFiles) = None) \<and>
     (CreateGzippedTarball lib fs tarFilePath path removeFiles = (None, fs') \<longrightarrow>
      (\<exists>data m t. lookup fs' tarFilePath = Some (File data m t) \<and>
         (\<forall>n c fm ft.
            is_name n \<and> filepath_Join path n \<noteq> tarFilePath \<and>
            lookup fs (filepath_Join path n) = Some (File c fm ft) \<longrightarrow>
            (\<exists>name. filepath_Rel (filepath_Dir path) (filepath_Join path n) = Inr name \<and>
               ReadFileFromGzippedTarball lib data name = (Some c, None)))))"
proof -
  have ne: "path \<noteq> []"
    using assms(3) by (rule cleaned_not_Nil)
  have runs: "fst (CreateGzippedTarball lib fs tarFilePath path removeFiles) = None"
    if h: "lookup fs (filepath_Dir tarFilePath) = Some (Dir a b c)"
      "\<forall>node. lookup fs tarFilePath = Some node \<longrightarrow> \<not> FileInfo_IsDir node"
      "\<forall>n node.
         is_name n \<and> filepath_Join path n \<noteq> tarFilePath \<and>
         lookup fs (filepath_Join path n) = Some node \<longrightarrow>
         (\<exists>c m t. node = File c m t \<and>
            (\<forall>name. filepath_Rel (filepath_Dir path) (filepath_Join path n) = Inr name \<longrightarrow>
               allowedFormats lib \<lparr>Name = name, Size = length c, Mode = m, ModTime = t\<rparr> =
                 None))"
  proof -
    have st: "os_Stat fs path = Inr (Dir sz dm dt)"
      by (simp add: os_Stat_def assms(5))
    have mk: "os_MkdirAll fs (filepath_Dir tarFilePath) 448 = (None, fs)"
      by (subst os_MkdirAll.simps) (simp add: h(1))
    have "\<exists>fs2. os_Create fs tarFilePath = Inr fs2"
    proof (cases "lookup fs tarFilePath")
      case None
      then show ?thesis by (simp add: os_Create_def)
    next
      case (Some node)
      with h(2) show ?thesis by (cases node) (simp_all add: os_Create_def)
    qed
    then obtain fs2 where cr: "os_Create fs tarFilePath = Inr fs2"
      by blast
    note c = os_Create_result[OF cr]
    have pt: "path \<noteq> tarFilePath"
      using c assms(5) by auto
    with c assms(5) have p2: "lookup fs2 path = Some (Dir sz dm dt)"
      by simp
    define fps where "fps = map (filepath_Join path) (Readdirnames fs2 path)"
    have gl: "filepath_Glob fs2 (path @ ''/*'') = Inr fps"
      using Glob_children[OF ne assms(4) p2] by (simp add: fps_def)
    have d: "distinct fps"
      by (simp add: fps_def distinct_map distinct_Readdirnames inj_on_def Join_inject)
    from Rel_Dir_Join[OF ne] obtain stem where stem:
      "\<forall>n. is_name n \<longrightarrow> filepath_Rel (filepath_Dir path) (filepath_Join path n) =
         Inr (join_elems (stem @ [n]))"
      by blast
    have ok: "\<exists>c m t name. lookup fs2 q = Some (File c m t) \<and>
        filepath_Rel (filepath_Dir path) q = Inr name \<and>
        allowedFormats lib \<lparr>Name = name, Size = length c, Mode = m, ModTime = t\<rparr> = None"
      if q: "q \<in> set fps" "q \<noteq> tarFilePath" for q
    proof -
      from q(1) obtain n where n: "q = filepath_Join path n" "n \<in> set (Readdirnames fs2 path)"
        by (auto simp: fps_def)
      then obtain k where k: "k \<in> fst ` set (nodes fs2)" "child_name path k = Some n"
        unfolding set_Readdirnames by blast
      from child_name_Some[OF k(2)] n(1) have kq: "k = q" and nm: "is_name n"
        by simp_all
      from in_nodes_lookup[OF k(1)] kq obtain node where "lookup fs2 q = Some node"
        by blast
      with c q(2) have l: "lookup fs q = Some node" "lookup fs2 q = Some node"
        by simp_all
      from h(3) nm q(2) l(1) n(1) obtain c' m' t' where f: "node = File c' m' t'"
        "\<forall>name. filepath_Rel (filepath_Dir path) q = Inr name \<longrightarrow>
           allowedFormats lib \<lparr>Name = name, Size = length c', Mode = m', ModTime = t'\<rparr> = None"
        by blast
      from stem nm n(1) have "filepath_Rel (filepath_Dir path) q = Inr (join_elems (stem @ [n]))"
        by simp
      with f l(2) show ?thesis
        by blast
    qed
    have new: "\<not> closed tar_NewWriter" "remaining tar_NewWriter = 0"
      by (simp_all add: tar_NewWriter_def remaining_def)
    have "fst (CreateGzippedTarball_loop lib tarFilePath (filepath_Dir path) removeFiles fps
        tar_NewWriter fs2) = None"
      by (rule Create_loop_runs[OF d new]) (use ok in blast)
    then show ?thesis
      by (cases "CreateGzippedTarball_loop lib tarFilePath (filepath_Dir path) removeFiles fps
          tar_NewWriter fs2")
        (simp add: CreateGzippedTarball_def st mk cr gl Let_def)
  qed
  have reads: "\<exists>data m t. lookup fs' tarFilePath = Some (File data m t) \<and>
         (\<forall>n c fm ft.
            is_name n \<and> filepath_Join path n \<noteq> tarFilePath \<and>
            lookup fs (filepath_Join path n) = Some (File c fm ft) \<longrightarrow>
            (\<exists>name. filepath_Rel (filepath_Dir path) (filepath_Join path n) = Inr name \<and>
               ReadFileFromGzippedTarball lib data name = (Some c, None)))"
    if built: "CreateGzippedTarball lib fs tarFilePath path removeFiles = (None, fs')"
  proof -
  from Create_chain[OF built] obtain info fs1 fs2 fps tw' fs3 where ch:
    "os_Stat fs path = Inr info"
    "os_MkdirAll fs (filepath_Dir tarFilePath) 448 = (None, fs1)"
    "os_Create fs1 tarFilePath = Inr fs2"
    "(if \<not> FileInfo_IsDir info then Inr [path] else filepath_Glob fs2 (path @ ''/*'')) = Inr fps"
    "CreateGzippedTarball_loop lib tarFilePath (filepath_Dir path) removeFiles fps
       tar_NewWriter fs2 = (None, tw', fs3)"
    "fs' = CreateGzippedTarball_deferred lib tarFilePath tw' fs3"
    by auto
  note c = os_Create_result[OF ch(3)]
  have keep: "\<And>q n. lookup fs q = Some n \<Longrightarrow> lookup fs1 q = Some n"
    using os_MkdirAll_keeps[of fs _ _ "filepath_Dir tarFilePath" 448] ch(2) by simp
  have p1: "lookup fs1 path = Some (Dir sz dm dt)"
    using keep assms(5) by simp
  with c have pt: "path \<noteq> tarFilePath"
    by auto
  with c p1 have p2: "lookup fs2 path = Some (Dir sz dm dt)"
    by simp
  from ch(1) assms(5) have "info = Dir sz dm dt"
    by (simp add: os_Stat_def)
  with ch(4) Glob_children[OF ne assms(4) p2]
  have fps: "fps = map (filepath_Join path) (Readdirnames fs2 path)"
    by simp
  have d: "distinct fps"
    by (simp add: fps distinct_map distinct_Readdirnames inj_on_def Join_inject)
  have new: "\<not> closed tar_NewWriter" "remaining tar_NewWriter = 0" "written tar_NewWriter = []"
    by (simp_all add: tar_NewWriter_def remaining_def written_def)
  define R where "R = (\<lambda>q e. \<exists>c m t name. lookup fs2 q = Some (File c m t) \<and>
         filepath_Rel (filepath_Dir path) q = Inr name \<and>
         e = (\<lparr>Name = name, Size = length c, Mode = m, ModTime = t\<rparr>, c))"
  from Create_loop_success[OF ch(5) d new(1,2)] obtain es where es:
    "written tw' = es" "list_all (valid_entry lib) es"
    "list_all2 R (filter (\<lambda>q. q \<noteq> tarFilePath) fps) es"
    "\<not> closed tw'" "remaining tw' = 0"
    unfolding R_def by (auto simp: new(3))
  from c obtain m0 t0 where t2: "lookup fs2 tarFilePath = Some (File [] m0 t0)"
    by blast
  have t3: "lookup fs3 tarFilePath = Some (File [] m0 t0)"
    using Create_loop_changes[OF ch(5), THEN conjunct2, rule_format, of tarFilePath] t2
    by (cases "lookup fs3 tarFilePath = lookup fs2 tarFilePath") auto
  define data where "data = gzip_tar lib es True"
  have t': "lookup fs' tarFilePath = Some (File data m0 t0)"
    by (simp add: ch(6) lookup_deferred t3 es(1) tar_Close_open[OF es(4,5)] data_def)
  have dec: "gzip_NewReader lib data = Inr (followed_by es (Stop EOF))"
    using assms(1) es(2) by (simp add: reads_back_def data_def)
  have ex: "\<exists>name. filepath_Rel (filepath_Dir path) (filepath_Join path n) = Inr name \<and>
      ReadFileFromGzippedTarball lib data name = (Some c, None)"
    if n: "is_name n" "filepath_Join path n \<noteq> tarFilePath"
      "lookup fs (filepath_Join path n) = Some (File c fm ft)" for n c fm ft
  proof -
    let ?p = "filepath_Join path n"
    have l2: "lookup fs2 ?p = Some (File c fm ft)"
      using keep[OF n(3)] c n(2) by simp
    then have "n \<in> set (Readdirnames fs2 path)"
      using lookup_in_nodes[OF l2] child_name_Join[OF n(1), of path]
      unfolding set_Readdirnames by blast
    then have "?p \<in> set (filter (\<lambda>q. q \<noteq> tarFilePath) fps)"
      using n(2) by (simp add: fps)
    from list_all2_setD1[OF es(3) this] l2 obtain name where e:
      "filepath_Rel (filepath_Dir path) ?p = Inr name"
      "(\<lparr>Name = name, Size = length c, Mode = fm, ModTime = ft\<rparr>, c) \<in> set es"
      by (auto simp: R_def)
    have "Name (fst (\<lparr>Name = name, Size = length c, Mode = fm, ModTime = ft\<rparr>, c)) = name"
      by simp
    with e(2) have "find (\<lambda>e. Name (fst e) = name) es \<noteq> None"
      unfolding find_None_iff by blast
    then obtain e' where f: "find (\<lambda>e. Name (fst e) = name) es = Some e'"
      by blast
    then have e': "e' \<in> set es" "Name (fst e') = name"
      by (auto simp: find_Some_iff nth_mem)
    from list_all2_setD2[OF es(3) e'(1)] obtain q c' m' t' name' where q:
      "q \<in> set fps" "lookup fs2 q = Some (File c' m' t')"
      "filepath_Rel (filepath_Dir path) q = Inr name'"
      "e' = (\<lparr>Name = name', Size = length c', Mode = m', ModTime = t'\<rparr>, c')"
      by (auto simp: R_def)
    from q(1) obtain n' where n': "q = filepath_Join path n'" "n' \<in> set (Readdirnames fs2 path)"
      by (auto simp: fps)
    then have "is_name n'"
      using child_name_Some by (auto simp: set_Readdirnames)
    moreover have "name' = name"
      using e'(2) q(4) by simp
    ultimately have "n' = n"
      using Rel_Dir_Join_inject[OF ne _ n(1), of n' name] q(3) e(1) n'(1) by simp
    with q(2) n'(1) l2 have "c' = c"
      by simp
    with q(4) have "snd e' = c"
      by simp
    then have "ReadFileFromGzippedTarball lib data name = (Some c, None)"
      by (simp add: ReadFileFromGzippedTarball_def dec Read_loop_archive f)
    with e(1) show ?thesis
      by blast
  qed
  show ?thesis
    using t' ex by blast
  qed
  show ?thesis
    using runs reads by blast
qed

theorem CreateGzippedTarball_round_trip_witness:
  "fst (CreateGzippedTarball mini fs_data ''/out/x.tgz'' ''/data'' True) = None \<and>
   (\<exists>data m t.
      lookup (snd (CreateGzippedTarball mini fs_data ''/out/x.tgz'' ''/data'' True)) ''/out/x.tgz'' =
        Some (File data m t) \<and>
      ReadFileFromGzippedTarball mini data ''data/a.txt'' = (Some [1, 2, 3], None) \<and>
      ReadFileFromGzippedTarball mini data ''data/b.txt'' = (Some [7, 8], None))"
proof -
  let ?r = "CreateGzippedTarball mini fs_data ''/out/x.tgz'' ''/data'' True"
  have c: "cleaned ''/out/x.tgz''" "cleaned ''/data''" "\<not> hasMeta ''/data''"
    "lookup fs_data ''/data'' = Some (Dir 4096 2147484141 5)"
    by code_simp+
  note T = CreateGzippedTarball_round_trip[OF mini_reads_back c]
  have o: "lookup fs_data (filepath_Dir ''/out/x.tgz'') = Some (Dir 4096 2147484141 5)"
    and t0: "lookup fs_data ''/out/x.tgz'' = None"
    and ra: "filepath_Rel (filepath_Dir ''/data'') ''/data/a.txt'' = Inr ''data/a.txt''"
    and rb: "filepath_Rel (filepath_Dir ''/data'') ''/data/b.txt'' = Inr ''data/b.txt''"
    and na: "is_name ''a.txt''" and nb: "is_name ''b.txt''"
    and ja: "filepath_Join ''/data'' ''a.txt'' = ''/data/a.txt''"
    and jb: "filepath_Join ''/data'' ''b.txt'' = ''/data/b.txt''"
    and la: "lookup fs_data ''/data/a.txt'' = Some (File [1, 2, 3] 6 10)"
    and lb: "lookup fs_data ''/data/b.txt'' = Some (File [7, 8] 6 11)"
    by code_simp+
  have t: "\<forall>node. lookup fs_data ''/out/x.tgz'' = Some node \<longrightarrow> \<not> FileInfo_IsDir node"
    using t0 by simp
  have k: "\<forall>n node.
      is_name n \<and> filepath_Join ''/data'' n \<noteq> ''/out/x.tgz'' \<and>
      lookup fs_data (filepath_Join ''/data'' n) = Some node \<longrightarrow>
      (\<exists>c m t. node = File c m t \<and>
         (\<forall>name. filepath_Rel (filepath_Dir ''/data'') (filepath_Join ''/data'' n) = Inr name \<longrightarrow>
            allowedFormats mini \<lparr>Name = name, Size = length c, Mode = m, ModTime = t\<rparr> = None))"
  proof (intro allI impI)
    fix n node
    assume h: "is_name n \<and> filepath_Join ''/data'' n \<noteq> ''/out/x.tgz'' \<and>
      lookup fs_data (filepath_Join ''/data'' n) = Some node"
    then have "n = ''a.txt'' \<and> node = File [1, 2, 3] 6 10 \<or> n = ''b.txt'' \<and> node = File [7, 8] 6 11"
      by (auto simp: fs_data_def lookup_def filepath_Join_def is_name_def split: if_splits)
    then show "\<exists>c m t. node = File c m t \<and>
         (\<forall>name. filepath_Rel (filepath_Dir ''/data'') (filepath_Join ''/data'' n) = Inr name \<longrightarrow>
            allowedFormats mini \<lparr>Name = name, Size = length c, Mode = m, ModTime = t\<rparr> = None)"
      by (auto simp: ja jb ra rb mini_def mini_allowedFormats_def)
  qed
  have 1: "fst ?r = None"
    using T[THEN conjunct1, rule_format, OF conjI[OF o conjI[OF t k]]] .
  then have 2: "?r = (None, snd ?r)"
    by (metis prod.collapse)
  from T[THEN conjunct2, rule_format, OF 2] obtain data m t where d:
    "lookup (snd ?r) ''/out/x.tgz'' = Some (File data m t)"
    "\<forall>n c fm ft.
        is_name n \<and> filepath_Join ''/data'' n \<noteq> ''/out/x.tgz'' \<and>
        lookup fs_data (filepath_Join ''/data'' n) = Some (File c fm ft) \<longrightarrow>
        (\<exists>name. filepath_Rel (filepath_Dir ''/data'') (filepath_Join ''/data'' n) = Inr name \<and>
           ReadFileFromGzippedTarball mini data name = (Some c, None))"
    by blast
  have "ReadFileFromGzippedTarball mini data ''data/a.txt'' = (Some [1, 2, 3], None)"
    using d(2)[rule_format, of "''a.txt''" "[1, 2, 3]" 6 10] na la by (simp add: ja ra)
  moreover have "ReadFileFromGzippedTarball mini data ''data/b.txt'' = (Some [7, 8], None)"
    using d(2)[rule_format, of "''b.txt''" "[7, 8]" 6 11] nb lb by (simp add: jb rb)
  ultimately show ?thesis
    using 1 d(1) by blast
qed

text \<open>
  The claim C1 fails for a directory whose name holds a pattern character. Line 89 gives
  the path of the directory to \<^verbatim>\<open>filepath.Glob\<close> as a part of the pattern, so the
  directory \<^verbatim>\<open>/d[1]\<close> is listed as \<^verbatim>\<open>/d1\<close>, which is not there: the call succeeds,
  the tarball is the empty archive, and the file of the directory cannot be read from it.
\<close>

theorem CreateGzippedTarball_round_trip_counterexample:
  "cleaned ''/out/x.tgz'' \<and> cleaned ''/d[1]'' \<and> hasMeta ''/d[1]'' \<and>
   lookup fs_brackets ''/d[1]'' = Some (Dir 4096 2147484141 5) \<and>
   lookup fs_brackets ''/d[1]/a.txt'' = Some (File [1, 2, 3] 6 10) \<and>
   filepath_Glob fs_brackets ''/d[1]/*'' = Inr [] \<and>
   fst (CreateGzippedTarball mini fs_brackets ''/out/x.tgz'' ''/d[1]'' False) = None \<and>
   lookup (snd (CreateGzippedTarball mini fs_brackets ''/out/x.tgz'' ''/d[1]'' False))
     ''/out/x.tgz'' = Some (File [31, 0] 438 100) \<and>
   valid_archive mini [31, 0] [] \<and>
   filepath_Rel (filepath_Dir ''/d[1]'') ''/d[1]/a.txt'' = Inr ''d[1]/a.txt'' \<and>
   ReadFileFromGzippedTarball mini [31, 0] ''d[1]/a.txt'' =
     (None, Some (Errorf ''no file named d[1]/a.txt in tarball''))"
  by code_simp



text \<open>
  Claim C10, as the code has it. When \<^verbatim>\<open>CreateGzippedTarball\<close> is called with
  \<^verbatim>\<open>removeFiles\<close> set on a path that is a regular file, differs from the tarball path and
  can be deleted, and the call succeeds, the file at that path is gone after the call.
\<close>

theorem CreateGzippedTarball_removes_single_file:
  assumes "lookup fs path = Some (File c m t)"
    and "path \<noteq> tarFilePath"
    and "path \<notin> set (undeletable fs)"
    and "CreateGzippedTarball lib fs tarFilePath path True = (None, fs')"
  shows "lookup fs' path = None"
proof -
  from Create_chain[OF assms(4)] obtain info fs1 fs2 fps tw' fs3 where ch:
    "os_Stat fs path = Inr info"
    "os_MkdirAll fs (filepath_Dir tarFilePath) 448 = (None, fs1)"
    "os_Create fs1 tarFilePath = Inr fs2"
    "(if \<not> FileInfo_IsDir info then Inr [path] else filepath_Glob fs2 (path @ ''/*'')) = Inr fps"
    "CreateGzippedTarball_loop lib tarFilePath (filepath_Dir path) True fps tar_NewWriter fs2 =
       (None, tw', fs3)"
    "fs' = CreateGzippedTarball_deferred lib tarFilePath tw' fs3"
    by auto
  from ch(1) assms(1) have "info = File c m t"
    by (simp add: os_Stat_def)
  with ch(4) have fps: "fps = [path]"
    by simp
  have l1: "lookup fs1 path = Some (File c m t)"
    using os_MkdirAll_keeps[OF assms(1), of "filepath_Dir tarFilePath" 448] ch(2) by simp
  have u1: "undeletable fs1 = undeletable fs"
    using undeletable_os_MkdirAll[of fs "filepath_Dir tarFilePath" 448] ch(2) by simp
  have l2: "lookup fs2 path = Some (File c m t)" and u2: "undeletable fs2 = undeletable fs"
    using os_Create_result[OF ch(3)] assms(2) l1 u1 by simp_all
  obtain e tw1 where a: "addFileToTarWriter lib fs2 path (filepath_Dir path) tar_NewWriter = (e, tw1)"
    by (cases "addFileToTarWriter lib fs2 path (filepath_Dir path) tar_NewWriter")
  with ch(5) assms(2) have "e = None"
    by (cases e) (auto simp: fps)
  with ch(5) assms(2) a have "fs3 = snd (os_Remove fs2 path)"
    by (simp add: fps)
  then have "lookup fs3 path = None"
    using os_Remove_deletes[OF l2] assms(3) u2 by simp
  then show ?thesis
    using assms(2) by (simp add: ch(6) lookup_deferred)
qed

theorem CreateGzippedTarball_removes_single_file_witness:
  "fst (CreateGzippedTarball mini fs_data ''/out/x.tgz'' ''/data/a.txt'' True) = None \<and>
   lookup (snd (CreateGzippedTarball mini fs_data ''/out/x.tgz'' ''/data/a.txt'' True))
     ''/data/a.txt'' = None"
proof -
  have 1: "lookup fs_data ''/data/a.txt'' = Some (File [1, 2, 3] 6 10)"
    by code_simp
  have 2: "''/data/a.txt'' \<noteq> ''/out/x.tgz''"
    by simp
  have 3: "''/data/a.txt'' \<notin> set (undeletable fs_data)"
    by code_simp
  have 4: "fst (CreateGzippedTarball mini fs_data ''/out/x.tgz'' ''/data/a.txt'' True) = None"
    by code_simp
  then have 5: "CreateGzippedTarball mini fs_data ''/out/x.tgz'' ''/data/a.txt'' True =
      (None, snd (CreateGzippedTarball mini fs_data ''/out/x.tgz'' ''/data/a.txt'' True))"
    by (metis prod.collapse)
  show ?thesis
    using CreateGzippedTarball_removes_single_file[OF 1 2 3 5] 4 by simp
qed

text \<open>
  The claim C10 as it is worded fails when the path is the tarball path itself: line 97
  skips that path, so the build succeeds and the file stays, holding the empty archive.
\<close>

theorem CreateGzippedTarball_removes_single_file_counterexample:
  "lookup fs_data ''/data/a.txt'' = Some (File [1, 2, 3] 6 10) \<and>
   fst (CreateGzippedTarball mini fs_data ''/data/a.txt'' ''/data/a.txt'' True) = None \<and>
   lookup (snd (CreateGzippedTarball mini fs_data ''/data/a.txt'' ''/data/a.txt'' True))
     ''/data/a.txt'' = Some (File [31, 0] 6 100)"
  by code_simp

end
